theory Spec2Isabelle
  imports Main
begin

section \<open>Strings and the pattern matches of extension.js\<close>

text \<open>
  A JavaScript string is modelled as a \<^typ>\<open>string\<close>: one \<^typ>\<open>char\<close> stands for one code
  unit, so the model covers the strings whose code units are below 256. A string is truthy
  when it is not empty.
\<close>

definition startsWith :: "string \<Rightarrow> string \<Rightarrow> bool" where
  "startsWith s p = (take (length p) s = p)"

definition endsWith :: "string \<Rightarrow> string \<Rightarrow> bool" where
  "endsWith s p = (length p \<le> length s \<and> drop (length s - length p) s = p)"

text \<open>\<^verbatim>\<open>s.includes(sub)\<close>: \<open>sub\<close> occurs at some index of \<open>s\<close>.\<close>

fun includesStr :: "string \<Rightarrow> string \<Rightarrow> bool" where
  "includesStr [] sub = (sub = [])"
| "includesStr (c # cs) sub = (startsWith (c # cs) sub \<or> includesStr cs sub)"

text \<open>The class \<^verbatim>\<open>\s\<close> of a regular expression, which is also what \<^verbatim>\<open>trim\<close> strips:
  tab, line feed, vertical tab, form feed, carriage return, space, no-break space.\<close>

definition isSpace :: "char \<Rightarrow> bool" where
  "isSpace c = (c \<in> set [CHR 0x09, CHR 0x0A, CHR 0x0B, CHR 0x0C, CHR 0x0D, CHR 0x20, CHR 0xA0])"

definition nonSpace :: "char \<Rightarrow> bool" where
  "nonSpace c = (\<not> isSpace c)"

definition trim :: "string \<Rightarrow> string" where
  "trim s = rev (dropWhile isSpace (rev (dropWhile isSpace s)))"

text \<open>\<^verbatim>\<open>s.split('\n')\<close>: the pieces between line feeds; an empty string gives one empty piece.\<close>

fun splitLines :: "string \<Rightarrow> string list" where
  "splitLines [] = [[]]"
| "splitLines (c # cs) =
     (if c = CHR 0x0A then [] # splitLines cs
      else (case splitLines cs of l # ls \<Rightarrow> (c # l) # ls | [] \<Rightarrow> [[c]]))"

text \<open>Matching under the flag \<^verbatim>\<open>i\<close>: two code units agree when their upper-case forms do;
  only the ASCII letters have one that matters for an ASCII pattern.\<close>

definition toUpper :: "char \<Rightarrow> char" where
  "toUpper c =
     (case map_of (zip ''abcdefghijklmnopqrstuvwxyz'' ''ABCDEFGHIJKLMNOPQRSTUVWXYZ'') c of
        Some u \<Rightarrow> u
      | None \<Rightarrow> c)"

definition startsWithCI :: "string \<Rightarrow> string \<Rightarrow> bool" where
  "startsWithCI s p = (map toUpper (take (length p) s) = map toUpper p)"

text \<open>A search without the flag \<^verbatim>\<open>y\<close> tries the pattern at index 0, 1, ... up to the length
  of the string and keeps the first index where it matches. \<open>m\<close> is the pattern tried at the
  start of its argument.\<close>

fun searchFirst :: "(string \<Rightarrow> 'a option) \<Rightarrow> string \<Rightarrow> 'a option" where
  "searchFirst m [] = m []"
| "searchFirst m (c # cs) =
     (case m (c # cs) of Some x \<Rightarrow> Some x | None \<Rightarrow> searchFirst m cs)"

subsection \<open>\<^verbatim>\<open>/HEAD branch:\s*(\S+)/\<close>\<close>

text \<open>After the literal, \<^verbatim>\<open>\s*\<close> takes every white-space character and \<^verbatim>\<open>(\S+)\<close> the longest
  run that follows, which must not be empty; giving white space back cannot help \<^verbatim>\<open>\S\<close>.\<close>

definition headBranchAt :: "string \<Rightarrow> string option" where
  "headBranchAt s =
     (if startsWith s ''HEAD branch:'' then
        (let b = takeWhile nonSpace (dropWhile isSpace (drop 12 s))
         in if b = [] then None else Some b)
      else None)"

definition headBranchMatch :: "string \<Rightarrow> string option" where
  "headBranchMatch s = searchFirst headBranchAt s"

subsection \<open>\<^verbatim>\<open>/^\s*origin\/(\S+)/\<close>\<close>

text \<open>No flag \<^verbatim>\<open>m\<close>: the pattern is tried at the start of the line only.\<close>

definition originBranchMatch :: "string \<Rightarrow> string option" where
  "originBranchMatch line =
     (let r = dropWhile isSpace line in
      if startsWith r ''origin/'' then
        (let b = takeWhile nonSpace (drop 7 r) in if b = [] then None else Some b)
      else None)"

subsection \<open>\<^verbatim>\<open>/remote:\s+(https?:\/\/[^\s]+)/i\<close>\<close>

text \<open>\<^verbatim>\<open>\s+\<close> needs one white-space character at least; \<^verbatim>\<open>s?\<close> is tried with the
  \<^verbatim>\<open>s\<close> first. The group keeps the text as it is written in the output.\<close>

definition urlAt :: "string \<Rightarrow> string option" where
  "urlAt s =
     (if startsWithCI s ''remote:'' then
        (let a = drop 7 s; r = dropWhile isSpace a in
         if r = a then None
         else if startsWithCI r ''https://'' then
           (let u = takeWhile nonSpace (drop 8 r) in
            if u = [] then None else Some (take 8 r @ u))
         else if startsWithCI r ''http://'' then
           (let u = takeWhile nonSpace (drop 7 r) in
            if u = [] then None else Some (take 7 r @ u))
         else None)
      else None)"

definition urlMatch :: "string \<Rightarrow> string option" where
  "urlMatch output = searchFirst urlAt output"

subsection \<open>The two patterns read from \<^verbatim>\<open>.git/config\<close>\<close>

text \<open>The common tail \<^verbatim>\<open>url\s*=\s*([^\s#]+)\<close>, tried at the start of \<open>s\<close>: the captured
  text and what follows the match.\<close>

definition urlChar :: "char \<Rightarrow> bool" where
  "urlChar c = (\<not> isSpace c \<and> c \<noteq> CHR ''#'')"

definition urlTail :: "string \<Rightarrow> (string \<times> string) option" where
  "urlTail s =
     (if startsWith s ''url'' then
        (case dropWhile isSpace (drop 3 s) of
           [] \<Rightarrow> None
         | c # b \<Rightarrow>
             if c = CHR ''='' then
               (let d = dropWhile isSpace b; u = takeWhile urlChar d in
                if u = [] then None else Some (u, dropWhile urlChar d))
             else None)
      else None)"

text \<open>The lazy \<^verbatim>\<open>[^\[]*?\<close> before the tail: the tail is tried first, and only when it fails
  one more character other than \<^verbatim>\<open>[\<close> is taken.\<close>

fun lazyToUrl :: "string \<Rightarrow> (string \<times> string) option" where
  "lazyToUrl [] = urlTail []"
| "lazyToUrl (c # cs) =
     (case urlTail (c # cs) of
        Some r \<Rightarrow> Some r
      | None \<Rightarrow> if c = CHR ''['' then None else lazyToUrl cs)"

text \<open>\<^verbatim>\<open>/\[remote\s+"origin"\][^\[]*?url\s*=\s*([^\s#]+)/g\<close> tried at the start of \<open>s\<close>.\<close>

definition originAt :: "string \<Rightarrow> (string \<times> string) option" where
  \<open>originAt s =
     (if startsWith s ''[remote'' then
        (let a = drop 7 s; b = dropWhile isSpace a in
         if b = a then None
         else if startsWith b ''"origin"]'' then lazyToUrl (drop 9 b)
         else None)
      else None)\<close>

text \<open>\<^verbatim>\<open>/\[remote\s+"(\S+)"\][^\[]*?url\s*=\s*([^\s#]+)/g\<close>: the group \<^verbatim>\<open>(\S+)\<close> is greedy and
  may run over quotes and brackets, so it starts with the longest run and gives characters
  back one at a time until the rest of the pattern matches. \<open>nameBacktrack c k\<close> tries the
  names of length \<open>k\<close>, \<open>k - 1\<close>, ..., 1.\<close>

fun nameBacktrack :: "string \<Rightarrow> nat \<Rightarrow> ((string \<times> string) \<times> string) option" where
  "nameBacktrack c 0 = None"
| \<open>nameBacktrack c (Suc k) =
     (let r = drop (Suc k) c in
      if startsWith r ''"]'' then
        (case lazyToUrl (drop 2 r) of
           Some (u, rest) \<Rightarrow> Some ((take (Suc k) c, u), rest)
         | None \<Rightarrow> nameBacktrack c k)
      else nameBacktrack c k)\<close>

definition remoteAt :: "string \<Rightarrow> ((string \<times> string) \<times> string) option" where
  \<open>remoteAt s =
     (if startsWith s ''[remote'' then
        (let a = drop 7 s; b = dropWhile isSpace a in
         if b = a then None
         else if startsWith b ''"'' then
           nameBacktrack (drop 1 b) (length (takeWhile nonSpace (drop 1 b)))
         else None)
      else None)\<close>

text \<open>The loop \<^verbatim>\<open>while ((match = regex.exec(configContent)) !== null)\<close> of a pattern with the
  flag \<^verbatim>\<open>g\<close>: each search starts where the previous match ended.\<close>

lemma searchFirst_shorter:
  assumes "\<And>t x r. m t = Some (x, r) \<Longrightarrow> length r < length t"
    and "searchFirst m s = Some (x, r)"
  shows "length r < length s"
  using assms(2)
proof (induction s)
  case Nil
  then show ?case using assms(1) by fastforce
next
  case (Cons c cs)
  show ?case
  proof (cases "m (c # cs)")
    case None
    with Cons show ?thesis by fastforce
  next
    case (Some y)
    with Cons.prems have "m (c # cs) = Some (x, r)" by simp
    then show ?thesis using assms(1) by blast
  qed
qed

lemma urlTail_shorter: "urlTail s = Some (u, r) \<Longrightarrow> length r < length s"
proof -
  assume h: "urlTail s = Some (u, r)"
  have le: "\<And>P (xs :: string). length (dropWhile P xs) \<le> length xs"
    by (simp add: length_dropWhile_le)
  from h obtain b where b: "dropWhile isSpace (drop 3 s) = CHR ''='' # b"
    and r: "r = dropWhile urlChar (dropWhile isSpace b)"
    and s3: "startsWith s ''url''"
    by (auto simp: urlTail_def Let_def split: if_splits list.splits)
  have "length r \<le> length b" unfolding r using le order_trans by blast
  moreover have "length (CHR ''='' # b) \<le> length (drop 3 s)"
    using le [of isSpace "drop 3 s"] b by simp
  ultimately show ?thesis by simp
qed

lemma lazyToUrl_shorter: "lazyToUrl s = Some (u, r) \<Longrightarrow> length r < length s"
proof (induction s)
  case Nil
  then show ?case using urlTail_shorter by fastforce
next
  case (Cons c cs)
  show ?case
  proof (cases "urlTail (c # cs)")
    case None
    with Cons show ?thesis by (fastforce split: if_splits)
  next
    case (Some y)
    with Cons.prems have "urlTail (c # cs) = Some (u, r)" by simp
    then show ?thesis by (rule urlTail_shorter)
  qed
qed

lemma originAt_shorter: "originAt s = Some (u, r) \<Longrightarrow> length r < length s"
proof -
  assume h: "originAt s = Some (u, r)"
  then have "lazyToUrl (drop 9 (dropWhile isSpace (drop 7 s))) = Some (u, r)"
    by (auto simp: originAt_def Let_def split: if_splits)
  then have "length r < length (drop 9 (dropWhile isSpace (drop 7 s)))"
    by (rule lazyToUrl_shorter)
  also have "\<dots> \<le> length (dropWhile isSpace (drop 7 s))" by simp
  also have "\<dots> \<le> length (drop 7 s)" by (rule length_dropWhile_le)
  also have "\<dots> \<le> length s" by simp
  finally show ?thesis .
qed

lemma nameBacktrack_shorter:
  "nameBacktrack c k = Some (x, r) \<Longrightarrow> length r < length c"
proof (induction k)
  case 0
  then show ?case by simp
next
  case (Suc k)
  let ?t = "drop 2 (drop (Suc k) c)"
  show ?case
  proof (cases "startsWith (drop (Suc k) c) [CHR 0x22, CHR '']''] \<and> lazyToUrl ?t \<noteq> None")
    case True
    then obtain u rest where l: "lazyToUrl ?t = Some (u, rest)" by auto
    with True Suc.prems have "r = rest" by (simp add: Let_def)
    moreover have "length rest < length ?t" using l by (rule lazyToUrl_shorter)
    ultimately show ?thesis by simp
  next
    case False
    with Suc.prems have "nameBacktrack c k = Some (x, r)"
      by (auto simp: Let_def split: if_splits option.splits)
    then show ?thesis by (rule Suc.IH)
  qed
qed

lemma remoteAt_shorter: "remoteAt s = Some (x, r) \<Longrightarrow> length r < length s"
proof -
  assume h: "remoteAt s = Some (x, r)"
  let ?b = "dropWhile isSpace (drop 7 s)"
  from h have "nameBacktrack (drop 1 ?b) (length (takeWhile nonSpace (drop 1 ?b))) = Some (x, r)"
    by (auto simp: remoteAt_def Let_def split: if_splits)
  then have "length r < length (drop 1 ?b)" by (rule nameBacktrack_shorter)
  also have "\<dots> \<le> length ?b" by simp
  also have "\<dots> \<le> length (drop 7 s)" by (rule length_dropWhile_le)
  also have "\<dots> \<le> length s" by simp
  finally show ?thesis .
qed

function scanOrigins :: "string \<Rightarrow> string list" where
  "scanOrigins s =
     (case searchFirst originAt s of
        None \<Rightarrow> []
      | Some (u, rest) \<Rightarrow> u # scanOrigins rest)"
  by pat_completeness auto
termination
proof (relation "measure length")
  show "wf (measure length)" by simp
next
  fix s :: string and x2 x y
  assume "searchFirst originAt s = Some x2" and "(x, y) = x2"
  then have "searchFirst originAt s = Some (x, y)" by simp
  then have "length y < length s"
    by (rule searchFirst_shorter [where m = originAt, rotated]) (rule originAt_shorter)
  then show "(y, s) \<in> measure length" by simp
qed

function scanRemotes :: "string \<Rightarrow> (string \<times> string) list" where
  "scanRemotes s =
     (case searchFirst remoteAt s of
        None \<Rightarrow> []
      | Some (nu, rest) \<Rightarrow> nu # scanRemotes rest)"
  by pat_completeness auto
termination
proof (relation "measure length")
  show "wf (measure length)" by simp
next
  fix s :: string and x2 x y
  assume "searchFirst remoteAt s = Some x2" and "(x, y) = x2"
  then have "searchFirst remoteAt s = Some (x, y)" by simp
  then have "length y < length s"
    by (rule searchFirst_shorter [where m = remoteAt, rotated]) (rule remoteAt_shorter)
  then show "(y, s) \<in> measure length" by simp
qed

section \<open>Data of the extension and its effects\<close>

text \<open>The result of \<^verbatim>\<open>execa\<close>; the exit code is absent when the process was killed.\<close>

record cmd_result =
  stdout :: string
  stderr :: string
  exitCode :: "int option"

record remote =
  remoteName :: string
  remoteUrl :: string

text \<open>A thrown value, with its \<^verbatim>\<open>message\<close>.\<close>

datatype error = Error string | TypeError string

fun message :: "error \<Rightarrow> string" where
  "message (Error m) = m"
| "message (TypeError m) = m"

text \<open>The argument of the command handler: absent, or an object whose \<^verbatim>\<open>rootUri\<close>
  (given here by its \<^verbatim>\<open>fsPath\<close>) may be absent.\<close>

datatype repository = NoRepository | Repository "string option"

text \<open>The notifications, by the message they show:
  \<^item> \<open>Starting\<close>: Starting GitLab MR Flow...
  \<^item> \<open>NoGitRepositoryFound\<close>: No Git repository found.
  \<^item> \<open>OnlyFeatBranches\<close>: Merge Requests can only be created from feature branches with
    the "feat" prefix. e.g. feature/abc
  \<^item> \<open>NotAGitRepository\<close>: Current workspace is not a Git repository.
  \<^item> \<open>GitCommandFailed desc\<close>: Failed to run git command: desc. Check Output channel for details.
  \<^item> \<open>FetchFailed\<close>: Git fetch from origin failed. Check Output channel for details.
  \<^item> \<open>MergeConflicts\<close>: Merge conflicts detected. Please resolve them manually (...), commit
    the merge, and then run the command again.
  \<^item> \<open>DivergentBranches\<close>: Error: Divergent branches. This shouldn't happen with fetch+merge. ...
  \<^item> \<open>MergeFailed remote target\<close>: Git merge of remote/target failed. ...
  \<^item> \<open>CreatedAndOpened target\<close>: Successfully created Merge Request targeting target and
    opened it in your browser.
  \<^item> \<open>PushedNotOpened current target\<close>: Successfully pushed current and initiated Merge
    Request creation targeting target. Failed to open URL.
  \<^item> \<open>PushedAndNavigated current\<close>: Successfully pushed current and navigated to Merge
    Requests page in your browser. Local branch remains current.
  \<^item> \<open>PushedNoPage current\<close>: Push successful, but could not confirm Merge Request creation
    or open MR page. Please check GitLab manually. Local branch remains current.
  \<^item> \<open>Switched target\<close>: Switched local branch to target.
  \<^item> \<open>SwitchFailed target\<close>: Merge request created, but failed to switch local branch back
    to target. Check Output channel.
  \<^item> \<open>SwitchError target\<close>: Merge request created, but encountered an error switching local
    branch back to target. Check Output channel.
  \<^item> \<open>PushFailed code\<close>: Failed to push or create Merge Request. Exit Code: code. ...
  \<^item> \<open>FlowFailed msg\<close>: GitLab MR Flow failed: msg. Check Output channel.\<close>

datatype notice =
    Starting
  | NoGitRepositoryFound
  | OnlyFeatBranches
  | NotAGitRepository
  | GitCommandFailed string
  | FetchFailed
  | MergeConflicts
  | DivergentBranches
  | MergeFailed string string
  | CreatedAndOpened string
  | PushedNotOpened string string
  | PushedAndNavigated string
  | PushedNoPage string
  | Switched string
  | SwitchFailed string
  | SwitchError string
  | PushFailed "int option"
  | FlowFailed string

text \<open>What one run of the command does to the outside, in order: \<open>Git args cwd\<close> is
  \<^verbatim>\<open>execa('git', args, {cwd})\<close>, \<open>ReadFile\<close> is \<^verbatim>\<open>fs.readFile\<close>, \<open>Access\<close> is \<^verbatim>\<open>fs.access\<close>,
  \<open>QuickPick\<close> is \<^verbatim>\<open>showQuickPick\<close> over items with a label and a description, \<open>QuickPickBranch\<close>
  the same over plain strings, \<open>OpenExternal\<close> is \<^verbatim>\<open>vscode.env.openExternal\<close>. The lines
  appended to the output channel are left out: they change no decision.\<close>

datatype event =
    Git "string list" string
  | ReadFile string
  | Access string
  | QuickPick "(string \<times> string) list"
  | QuickPickBranch "string list"
  | OpenExternal string
  | ShowInformation notice
  | ShowWarning notice
  | ShowError notice

text \<open>Everything the handler reads from the outside. \<open>dirname\<close> and \<open>joinPath\<close> are
  \<^verbatim>\<open>path.dirname\<close> and \<^verbatim>\<open>path.join\<close>; \<open>access p\<close> says that \<^verbatim>\<open>fs.access(p)\<close> resolves;
  \<open>readFile p\<close> is the text of the file, or nothing when reading fails; \<open>execa args cwd\<close> is
  the result of the git command, or nothing when running it throws; \<open>openExternal url\<close> says
  that parsing and opening the URL does not throw. A pick is the index of the chosen item,
  or nothing when the user dismisses the list: \<open>pickRemote\<close> answers the first list of
  remotes, \<open>pickRemoteAgain\<close> the one shown when the remote is resolved a second time, and
  \<open>pickBranch\<close> the list of branches.\<close>

record env =
  repository :: repository
  activeFile :: "string option"
  dirname :: "string \<Rightarrow> string"
  joinPath :: "string list \<Rightarrow> string"
  access :: "string \<Rightarrow> bool"
  readFile :: "string \<Rightarrow> string option"
  execa :: "string list \<Rightarrow> string \<Rightarrow> cmd_result option"
  pickRemote :: "nat option"
  pickRemoteAgain :: "nat option"
  pickBranch :: "nat option"
  openExternal :: "string \<Rightarrow> bool"

text \<open>An awaited call: the events it caused, and the error it threw or the value it
  returned.\<close>

type_synonym 'a eff = "event list \<times> (error + 'a)"

definition andThen :: "'a eff \<Rightarrow> ('a \<Rightarrow> 'b eff) \<Rightarrow> 'b eff" where
  "andThen m f =
     (case m of
        (es, Inl e) \<Rightarrow> (es, Inl e)
      | (es, Inr x) \<Rightarrow> (case f x of (es', r) \<Rightarrow> (es @ es', r)))"

text \<open>\<open>andThen m f\<close> awaits \<open>m\<close> and, unless it threw, goes on with \<open>f\<close> on its value;
  \<open>after es m\<close> is \<open>m\<close> with the events \<open>es\<close> before its own.\<close>

definition after :: "event list \<Rightarrow> 'a eff \<Rightarrow> 'a eff" where
  "after es m = (es @ fst m, snd m)"

text \<open>\<^verbatim>\<open>showQuickPick\<close> resolves to the chosen item, or to \<^verbatim>\<open>undefined\<close>; an index outside the
  list counts as no choice.\<close>

definition showQuickPick :: "'a list \<Rightarrow> nat option \<Rightarrow> 'a option" where
  "showQuickPick items choice =
     (case choice of
        None \<Rightarrow> None
      | Some i \<Rightarrow> if i < length items then Some (items ! i) else None)"

section \<open>The functions of extension.js\<close>

definition runGitCommand :: "env \<Rightarrow> string list \<Rightarrow> string \<Rightarrow> string \<Rightarrow> cmd_result eff" where
  "runGitCommand e args cwd commandDesc =
     (case execa e args cwd of
        Some result \<Rightarrow> ([Git args cwd], Inr result)
      | None \<Rightarrow>
          ([Git args cwd, ShowError (GitCommandFailed commandDesc)],
           Inl (Error (''Git command failed: '' @ commandDesc))))"

subsection \<open>\<^verbatim>\<open>getOrigin\<close>\<close>

text \<open>The prompt that both branches of \<^verbatim>\<open>getOrigin\<close> write out: the items carry the name as
  label and the URL as description, and the entry returned is the first one whose name is
  the label of the chosen item (\<^verbatim>\<open>remotes.find(r => r.remoteName === selectedRemote.label)\<close>).\<close>

definition promptRemote :: "remote list \<Rightarrow> nat option \<Rightarrow> string \<Rightarrow> remote eff" where
  "promptRemote remotes choice cancelled =
     (let items = map (\<lambda>r. (remoteName r, remoteUrl r)) remotes in
      ([QuickPick items],
       (case showQuickPick items choice of
          None \<Rightarrow> Inl (Error cancelled)
        | Some selectedRemote \<Rightarrow>
            (case find (\<lambda>r. remoteName r = fst selectedRemote) remotes of
               None \<Rightarrow> Inl (TypeError ''Cannot read properties of undefined'')
             | Some selected \<Rightarrow> Inr selected))))"

text \<open>The entries that the two loops of \<^verbatim>\<open>getOrigin\<close> collect from the text of the
  configuration, and the part of \<^verbatim>\<open>getOrigin\<close> that follows the reading of the file.\<close>

definition originRemotes :: "string \<Rightarrow> remote list" where
  "originRemotes configContent =
     map (\<lambda>u. \<lparr>remoteName = ''origin'', remoteUrl = u\<rparr>) (scanOrigins configContent)"

definition allRemotes :: "string \<Rightarrow> remote list" where
  "allRemotes configContent =
     map (\<lambda>(n, u). \<lparr>remoteName = n, remoteUrl = u\<rparr>) (scanRemotes configContent)"

definition chooseRemote :: "string \<Rightarrow> nat option \<Rightarrow> remote eff" where
  "chooseRemote configContent choice =
     (if length (originRemotes configContent) = 0 then
        (if length (allRemotes configContent) = 0 then
           ([], Inl (Error ''No remote URLs found in .git/config.''))
         else if length (allRemotes configContent) = 1 then
           ([], Inr (hd (allRemotes configContent)))
         else promptRemote (allRemotes configContent) choice
                ''Remote selection cancelled by user.'')
      else if length (originRemotes configContent) = 1 then
        ([], Inr (hd (originRemotes configContent)))
      else promptRemote (originRemotes configContent) choice
             ''Origin selection cancelled by user.'')"

definition getOrigin :: "env \<Rightarrow> string \<Rightarrow> nat option \<Rightarrow> remote eff" where
  "getOrigin e workspaceRoot choice =
     (let configPath = joinPath e [workspaceRoot, ''.git'', ''config''] in
      case readFile e configPath of
        None \<Rightarrow> ([ReadFile configPath], Inl (Error ''Could not read .git/config file.''))
      | Some configContent \<Rightarrow> after [ReadFile configPath] (chooseRemote configContent choice))"

subsection \<open>\<^verbatim>\<open>getTargetBranch\<close>\<close>

text \<open>Attempt 1, with its \<^verbatim>\<open>try\<close> and \<^verbatim>\<open>catch\<close>: the branch it returns, or nothing when the
  function goes on to the fallback.\<close>

definition remoteShow :: "env \<Rightarrow> string \<Rightarrow> string \<Rightarrow> event list \<times> string option" where
  "remoteShow e workspaceRoot name =
     (case runGitCommand e [''remote'', ''show'', name] workspaceRoot (''show remote '' @ name) of
        (es, Inl err) \<Rightarrow> (es, None)
      | (es, Inr remoteShowResult) \<Rightarrow>
          (es,
           if exitCode remoteShowResult = Some 0 \<and> stdout remoteShowResult \<noteq> [] then
             (case headBranchMatch (stdout remoteShowResult) of
                None \<Rightarrow> None
              | Some defaultBranch \<Rightarrow>
                  if defaultBranch \<noteq> ''(unknown)'' then Some defaultBranch else None)
           else None))"

text \<open>The branches pushed by the \<^verbatim>\<open>forEach\<close> over the lines of \<^verbatim>\<open>git branch -r\<close>.\<close>

fun remoteBranches :: "string list \<Rightarrow> string list" where
  "remoteBranches [] = []"
| "remoteBranches (line # lines) =
     (if includesStr line ''->'' then remoteBranches lines
      else (case originBranchMatch line of
              Some b \<Rightarrow> b # remoteBranches lines
            | None \<Rightarrow> remoteBranches lines))"

text \<open>The body of the \<^verbatim>\<open>try\<close> of attempt 2.\<close>

definition fallbackTry :: "env \<Rightarrow> string \<Rightarrow> nat option \<Rightarrow> string eff" where
  "fallbackTry e workspaceRoot choice =
     andThen (runGitCommand e [''branch'', ''-r''] workspaceRoot ''list remote branches'')
       (\<lambda>branchRResult.
          if exitCode branchRResult = Some 0 \<and> stdout branchRResult \<noteq> [] then
            (let branches = remoteBranches (splitLines (stdout branchRResult)) in
             if length branches = 0 then ([], Inl (Error ''No remote branches found for origin.''))
             else
               ([QuickPickBranch branches],
                (case showQuickPick branches choice of
                   None \<Rightarrow> Inl (Error ''Target branch selection cancelled by user.'')
                 | Some selectedBranch \<Rightarrow>
                     if selectedBranch = [] then
                       Inl (Error ''Target branch selection cancelled by user.'')
                     else Inr selectedBranch)))
          else ([], Inl (Error ''Could not list remote branches using 'git branch -r'.'')))"

text \<open>Attempt 2 with its \<^verbatim>\<open>catch\<close>: only a cancellation keeps its own error.\<close>

definition fallbackBranch :: "env \<Rightarrow> string \<Rightarrow> nat option \<Rightarrow> string eff" where
  "fallbackBranch e workspaceRoot choice =
     (case fallbackTry e workspaceRoot choice of
        (es, Inl err) \<Rightarrow>
          (es, Inl (if includesStr (message err) ''cancelled by user'' then err
                    else Error ''Failed to determine target branch.''))
      | (es, Inr b) \<Rightarrow> (es, Inr b))"

definition getTargetBranch :: "env \<Rightarrow> string \<Rightarrow> string \<Rightarrow> nat option \<Rightarrow> string eff" where
  "getTargetBranch e workspaceRoot name choice =
     (case remoteShow e workspaceRoot name of
        (es, Some defaultBranch) \<Rightarrow> (es, Inr defaultBranch)
      | (es, None) \<Rightarrow> after es (fallbackBranch e workspaceRoot choice))"

subsection \<open>\<^verbatim>\<open>getCurrentBranch\<close>\<close>

definition getCurrentBranch :: "env \<Rightarrow> string \<Rightarrow> string eff" where
  "getCurrentBranch e workspaceRoot =
     (case andThen (runGitCommand e [''branch'', ''--show-current''] workspaceRoot
                      ''get current branch'')
             (\<lambda>r. if exitCode r = Some 0 \<and> stdout r \<noteq> [] then
                     (let currentBranch = trim (stdout r) in
                      if currentBranch \<noteq> [] then ([], Inr currentBranch)
                      else ([], Inl (Error (''Could not determine current branch (empty output). ''
                                            @ ''Possibly in detached HEAD state?''))))
                   else ([], Inl (Error ''Failed to get current branch name.''))) of
        (es, Inl err) \<Rightarrow>
          (es, Inl (Error (''Failed to determine current branch: '' @ message err)))
      | (es, Inr b) \<Rightarrow> (es, Inr b))"

subsection \<open>The command handler\<close>

text \<open>Step 9: the checkout of the target branch, with its \<^verbatim>\<open>try\<close> and \<^verbatim>\<open>catch\<close>.\<close>

definition switchToTarget :: "env \<Rightarrow> string \<Rightarrow> string \<Rightarrow> event list" where
  "switchToTarget e workspaceRoot targetBranch =
     (case runGitCommand e [''checkout'', targetBranch] workspaceRoot
             (''checkout '' @ targetBranch) of
        (es, Inl err) \<Rightarrow> es @ [ShowWarning (SwitchError targetBranch)]
      | (es, Inr checkoutResult) \<Rightarrow>
          if exitCode checkoutResult = Some 0 then es @ [ShowInformation (Switched targetBranch)]
          else es @ [ShowWarning (SwitchFailed targetBranch)])"

text \<open>Step 8 when the push output holds a URL.\<close>

definition openMrUrl :: "env \<Rightarrow> string \<Rightarrow> string \<Rightarrow> string \<Rightarrow> event list" where
  "openMrUrl e mrUrl targetBranch currentBranch =
     (if openExternal e mrUrl then
        [OpenExternal mrUrl, ShowInformation (CreatedAndOpened targetBranch)]
      else [OpenExternal mrUrl, ShowInformation (PushedNotOpened currentBranch targetBranch)])"

text \<open>Step 8 when it holds none: the remote is resolved again and the listing page of its
  URL is opened. \<^verbatim>\<open>remoteUrl.slice(0, -4)\<close> drops the last four characters.\<close>

definition constructedMrUrl :: "string \<Rightarrow> string" where
  "constructedMrUrl url =
     (let baseUrl = (if endsWith url ''.git'' then take (length url - 4) url else url)
      in baseUrl @ ''/-/merge_requests'')"

definition openListing :: "env \<Rightarrow> string \<Rightarrow> string \<Rightarrow> event list" where
  "openListing e workspaceRoot currentBranch =
     (case getOrigin e workspaceRoot (pickRemoteAgain e) of
        (es, Inl err) \<Rightarrow> es @ [ShowError (PushedNoPage currentBranch)]
      | (es, Inr origin) \<Rightarrow>
          (let url = constructedMrUrl (remoteUrl origin) in
           if openExternal e url then
             es @ [OpenExternal url, ShowInformation (PushedAndNavigated currentBranch)]
           else es @ [OpenExternal url, ShowError (PushedNoPage currentBranch)]))"

definition pushArgs :: "string \<Rightarrow> string \<Rightarrow> string \<Rightarrow> string list" where
  "pushArgs name currentBranch targetBranch =
     [''push'', name, currentBranch,
      ''-o'', ''merge_request.create'',
      ''-o'', ''merge_request.target='' @ targetBranch,
      ''-o'', ''merge_request.remove_source_branch=false'',
      ''-o'', ''merge_request.title='' @ currentBranch]"

text \<open>Steps 8 and 9, from the result of the push. The group of the URL pattern is never
  empty, so \<^verbatim>\<open>match && match[1]\<close> holds exactly when the pattern matches.\<close>

definition afterPush :: "env \<Rightarrow> string \<Rightarrow> string \<Rightarrow> string \<Rightarrow> cmd_result \<Rightarrow> unit eff" where
  "afterPush e workspaceRoot targetBranch currentBranch pushResult =
     (if exitCode pushResult = Some 0 then
        (case urlMatch (stdout pushResult @ [CHR 0x0A] @ stderr pushResult) of
           Some mrUrl \<Rightarrow>
             (openMrUrl e mrUrl targetBranch currentBranch
                @ switchToTarget e workspaceRoot targetBranch, Inr ())
         | None \<Rightarrow> (openListing e workspaceRoot currentBranch, Inr ()))
      else ([ShowError (PushFailed (exitCode pushResult))], Inr ()))"

text \<open>Step 7.\<close>

definition pushAndCreate :: "env \<Rightarrow> string \<Rightarrow> remote \<Rightarrow> string \<Rightarrow> string \<Rightarrow> unit eff" where
  "pushAndCreate e workspaceRoot origin targetBranch currentBranch =
     andThen (runGitCommand e (pushArgs (remoteName origin) currentBranch targetBranch)
                workspaceRoot ''push and create merge request'')
       (afterPush e workspaceRoot targetBranch currentBranch)"

text \<open>What the result of the merge of step 6 leads to.
  \<^verbatim>\<open>mergeResult.stderr || mergeResult.stdout || ''\<close> is the error stream unless it is empty.\<close>

definition afterMerge ::
  "env \<Rightarrow> string \<Rightarrow> remote \<Rightarrow> string \<Rightarrow> string \<Rightarrow> cmd_result \<Rightarrow> unit eff" where
  "afterMerge e workspaceRoot origin targetBranch currentBranch mergeResult =
     (if exitCode mergeResult \<noteq> Some 0 then
        (let errorOutput =
               (if stderr mergeResult \<noteq> [] then stderr mergeResult else stdout mergeResult)
         in
         if includesStr errorOutput ''Merge conflict''
            \<or> includesStr errorOutput
                 ''Automatic merge failed; fix conflicts and then commit the result.''
         then ([ShowError MergeConflicts], Inr ())
         else if includesStr errorOutput
                   ''fatal: Need to specify how to reconcile divergent branches.''
         then ([ShowError DivergentBranches], Inr ())
         else ([ShowError (MergeFailed (remoteName origin) targetBranch)], Inr ()))
      else pushAndCreate e workspaceRoot origin targetBranch currentBranch)"

text \<open>Step 6: the fetch, then the merge of the target branch of the remote.\<close>

definition mergeTarget :: "env \<Rightarrow> string \<Rightarrow> remote \<Rightarrow> string \<Rightarrow> string \<Rightarrow> unit eff" where
  "mergeTarget e workspaceRoot origin targetBranch currentBranch =
     andThen (runGitCommand e [''merge'', remoteName origin @ ''/'' @ targetBranch] workspaceRoot
                (''merge '' @ remoteName origin @ ''/'' @ targetBranch))
       (afterMerge e workspaceRoot origin targetBranch currentBranch)"

definition fetchAndMerge :: "env \<Rightarrow> string \<Rightarrow> remote \<Rightarrow> string \<Rightarrow> string \<Rightarrow> unit eff" where
  "fetchAndMerge e workspaceRoot origin targetBranch currentBranch =
     andThen (runGitCommand e [''fetch'', remoteName origin] workspaceRoot
                (''fetch '' @ remoteName origin))
       (\<lambda>fetchResult.
          if exitCode fetchResult \<noteq> Some 0 then ([ShowError FetchFailed], Inr ())
          else mergeTarget e workspaceRoot origin targetBranch currentBranch)"

text \<open>Steps 2 to 9: the body of the outer \<^verbatim>\<open>try\<close>.\<close>

definition tryBody :: "env \<Rightarrow> string \<Rightarrow> string \<Rightarrow> unit eff" where
  "tryBody e workspaceRoot currentBranch =
     (let gitDir = joinPath e [workspaceRoot, ''.git''] in
      if \<not> access e gitDir then ([Access gitDir, ShowError NotAGitRepository], Inr ())
      else
        after [Access gitDir]
          (andThen (getOrigin e workspaceRoot (pickRemote e))
             (\<lambda>origin.
                andThen (getTargetBranch e workspaceRoot (remoteName origin) (pickBranch e))
                  (\<lambda>targetBranch.
                     fetchAndMerge e workspaceRoot origin targetBranch currentBranch))))"

text \<open>The outer \<^verbatim>\<open>try\<close> with its \<^verbatim>\<open>catch\<close>, which turns every error into a notification.\<close>

definition automatedFlow :: "env \<Rightarrow> string \<Rightarrow> string \<Rightarrow> event list" where
  "automatedFlow e workspaceRoot currentBranch =
     (case tryBody e workspaceRoot currentBranch of
        (es, Inl err) \<Rightarrow>
          es @ [ShowError (FlowFailed (if message err = [] then ''Unknown error''
                                       else message err))]
      | (es, Inr u) \<Rightarrow> es)"

text \<open>Step 0 and what follows it, once the workspace root is known.\<close>

definition fromRoot :: "env \<Rightarrow> string \<Rightarrow> unit eff" where
  "fromRoot e workspaceRoot =
     andThen (getCurrentBranch e workspaceRoot)
       (\<lambda>currentBranch.
          if \<not> startsWith currentBranch ''feat'' then ([ShowError OnlyFeatBranches], Inr ())
          else (automatedFlow e workspaceRoot currentBranch, Inr ()))"

text \<open>The loop of step 1 that walks up from the directory of the active file: the probes it
  made and the root it found, empty when it reached the top without finding one. The loop
  runs for as long as \<^verbatim>\<open>path.dirname\<close> keeps changing the directory.\<close>

partial_function (option) walkUp :: "env \<Rightarrow> string \<Rightarrow> (event list \<times> string) option" where
  "walkUp e dir =
     (if dir = dirname e dir then Some ([], [])
      else if access e (joinPath e [dir, ''.git'']) then
        Some ([Access (joinPath e [dir, ''.git''])], dir)
      else
        Option.bind (walkUp e (dirname e dir))
          (\<lambda>r. Some (Access (joinPath e [dir, ''.git'']) # fst r, snd r)))"

declare walkUp.simps [code]

text \<open>The handler of \<^verbatim>\<open>gitlab-mr-flow.createMergeRequest\<close>. Its first statement reads
  \<^verbatim>\<open>repository.rootUri\<close> and throws when the argument is absent. The result is nothing when
  the loop of step 1 does not end.\<close>

definition createMergeRequest :: "env \<Rightarrow> unit eff option" where
  "createMergeRequest e =
     (case repository e of
        NoRepository \<Rightarrow> Some ([], Inl (TypeError ''Cannot read properties of undefined''))
      | Repository (Some fsPath) \<Rightarrow> Some (after [ShowInformation Starting] (fromRoot e fsPath))
      | Repository None \<Rightarrow>
          Option.bind
            (case activeFile e of
               None \<Rightarrow> Some ([], [])
             | Some file \<Rightarrow> walkUp e (dirname e file))
            (\<lambda>(es, workspaceRoot).
               if workspaceRoot = [] then
                 Some (ShowInformation Starting # es @ [ShowError NoGitRepositoryFound], Inr ())
               else Some (after (ShowInformation Starting # es) (fromRoot e workspaceRoot))))"

section \<open>Example runs\<close>

text \<open>A workspace \<^verbatim>\<open>/repo\<close> handed over by the source-control view. \<open>world\<close> fixes the replies
  of git from the name of the current branch, the text of \<^verbatim>\<open>.git/config\<close>, the output of
  \<^verbatim>\<open>git remote show\<close>, the output of \<^verbatim>\<open>git branch -r\<close>, the result of the merge and the result
  of the push; the fetch and the checkout succeed, and the user dismisses every list.\<close>

fun joinSlash :: "string list \<Rightarrow> string" where
  "joinSlash [] = ''.''"
| "joinSlash [p] = p"
| "joinSlash (p # ps) = p @ ''/'' @ joinSlash ps"

definition ok :: "string \<Rightarrow> cmd_result" where
  "ok out = \<lparr>stdout = out, stderr = [], exitCode = Some 0\<rparr>"

definition gitReplies ::
  "string \<Rightarrow> string \<Rightarrow> string \<Rightarrow> cmd_result \<Rightarrow> cmd_result
     \<Rightarrow> string list \<Rightarrow> string \<Rightarrow> cmd_result option" where
  "gitReplies branch showOut branchesOut mergeResult pushResult args cwd =
     (if args = [''branch'', ''--show-current''] then Some (ok branch)
      else if take 2 args = [''remote'', ''show''] then Some (ok showOut)
      else if args = [''branch'', ''-r''] then Some (ok branchesOut)
      else if take 1 args = [''fetch''] then Some (ok [])
      else if take 1 args = [''merge''] then Some mergeResult
      else if take 1 args = [''push''] then Some pushResult
      else if take 1 args = [''checkout''] then Some (ok [])
      else None)"

definition world ::
  "string \<Rightarrow> string \<Rightarrow> string \<Rightarrow> string \<Rightarrow> cmd_result \<Rightarrow> cmd_result \<Rightarrow> env" where
  "world branch config showOut branchesOut mergeResult pushResult =
     \<lparr>repository = Repository (Some ''/repo''),
      activeFile = None,
      dirname = (\<lambda>p. p),
      joinPath = joinSlash,
      access = (\<lambda>p. p = ''/repo/.git''),
      readFile = (\<lambda>p. if p = ''/repo/.git/config'' then Some config else None),
      execa = gitReplies branch showOut branchesOut mergeResult pushResult,
      pickRemote = None,
      pickRemoteAgain = None,
      pickBranch = None,
      openExternal = (\<lambda>u. True)\<rparr>"

definition oneOrigin :: string where
  \<open>oneOrigin =
     ''[core]'' @ [CHR 0x0A, CHR 0x09] @ ''bare = false'' @ [CHR 0x0A]
     @ ''[remote "origin"]'' @ [CHR 0x0A, CHR 0x09]
     @ ''url = https://example.com/group/proj.git'' @ [CHR 0x0A, CHR 0x09]
     @ ''fetch = +refs/heads/*:refs/remotes/origin/*'' @ [CHR 0x0A]\<close>

definition twoOrigins :: string where
  \<open>twoOrigins =
     ''[remote "origin"]'' @ [CHR 0x0A, CHR 0x09] @ ''url = https://a.example/x.git'' @ [CHR 0x0A]
     @ ''[remote "origin"]'' @ [CHR 0x0A, CHR 0x09] @ ''url = https://b.example/y.git''
     @ [CHR 0x0A]\<close>


definition showMain :: string where
  "showMain = ''* remote origin'' @ [CHR 0x0A] @ ''  HEAD branch: main'' @ [CHR 0x0A]
     @ ''  Remote branch:'' @ [CHR 0x0A] @ ''    main tracked''"


definition originBranches :: string where
  "originBranches = ''  origin/HEAD -> origin/main'' @ [CHR 0x0A] @ ''  origin/main''
     @ [CHR 0x0A] @ ''  origin/develop''"


definition upToDate :: cmd_result where
  "upToDate = ok ''Already up to date.''"

definition conflictOnStdout :: cmd_result where
  "conflictOnStdout =
     \<lparr>stdout = ''CONFLICT (content): Merge conflict in logo.png'' @ [CHR 0x0A]
        @ ''Automatic merge failed; fix conflicts and then commit the result.'',
      stderr = ''warning: Cannot merge binary files: logo.png (HEAD vs. origin/main)'',
      exitCode = Some 1\<rparr>"

definition pushWithUrl :: cmd_result where
  "pushWithUrl =
     \<lparr>stdout = [],
      stderr = ''remote: To create a merge request for feat/x, visit:'' @ [CHR 0x0A]
        @ ''remote:   https://example.com/group/proj/-/merge_requests/42'' @ [CHR 0x0A]
        @ ''To https://example.com/group/proj.git'',
      exitCode = Some 0\<rparr>"

definition pushWithoutUrl :: cmd_result where
  "pushWithoutUrl = \<lparr>stdout = [], stderr = ''Everything up-to-date'', exitCode = Some 0\<rparr>"


definition twoRemotes :: string where
  \<open>twoRemotes =
     ''[remote "alpha"]'' @ [CHR 0x0A, CHR 0x09] @ ''url = https://a.example/x.git'' @ [CHR 0x0A]
     @ ''[remote "beta"]'' @ [CHR 0x0A, CHR 0x09] @ ''url = https://b.example/y.git''
     @ [CHR 0x0A]\<close>

section \<open>Vocabulary of the statements\<close>

text \<open>The events a run has caused when the handler returns.\<close>

definition events :: "env \<Rightarrow> event list" where
  "events e = (case createMergeRequest e of None \<Rightarrow> [] | Some run \<Rightarrow> fst run)"

text \<open>An event is calm when it is neither a push, nor a checkout, nor the opening of a URL.\<close>

fun calm :: "event \<Rightarrow> bool" where
  "calm (Git args cwd) = (take 1 args \<noteq> [''push''] \<and> take 1 args \<noteq> [''checkout''])"
| "calm (OpenExternal u) = False"
| "calm ev = True"

text \<open>The probes of the loop of step 1.\<close>

fun isProbe :: "event \<Rightarrow> bool" where
  "isProbe (Access p) = True"
| "isProbe ev = False"

text \<open>Four runs on a branch \<^verbatim>\<open>feat/x\<close>: git prints the URL of the new merge request; git
  prints none; the remote does not know its HEAD branch; the only remote is \<^verbatim>\<open>upstream\<close>.\<close>

definition featWorld :: env where
  "featWorld = world ''feat/x'' oneOrigin showMain originBranches upToDate pushWithUrl"





definition dismissWorld :: env where
  "dismissWorld =
     (world ''feat/x'' twoRemotes showMain originBranches upToDate pushWithoutUrl)
       \<lparr>pickRemote := Some 1\<rparr>"

definition otherRemoteWorld :: env where
  "otherRemoteWorld = dismissWorld\<lparr>pickRemoteAgain := Some 0\<rparr>"

text \<open>A run without a repository handle: the root is found by walking up from the active
  file \<^verbatim>\<open>/repo/src/a.js\<close>. \<open>dirnameSlash\<close> is \<^verbatim>\<open>path.dirname\<close> on absolute paths written with
  \<^verbatim>\<open>/\<close>.\<close>

definition dirnameSlash :: "string \<Rightarrow> string" where
  "dirnameSlash p =
     (let d = rev (drop 1 (dropWhile (\<lambda>c. c \<noteq> CHR ''/'') (rev p)))
      in if d = [] then ''/'' else d)"

definition walkWorld :: env where
  "walkWorld = featWorld\<lparr>repository := Repository None,
                           activeFile := Some ''/repo/src/a.js'',
                           dirname := dirnameSlash\<rparr>"

text \<open>The words of the specification about the output of the push, written down without
  the matcher of the code. \<open>specHttpUrl u\<close>: the text \<open>u\<close> is \<^verbatim>\<open>http://\<close> or \<^verbatim>\<open>https://\<close>, in any
  case of the letters, followed by at least one character, none of them white space.
  \<open>specRemoteUrlAt s u\<close>: the text \<open>s\<close> starts with \<^verbatim>\<open>remote:\<close>, in any case of the letters,
  then at least one white-space character, then the URL \<open>u\<close>, which ends at the end of the
  text or at a white-space character. \<open>specFirstRemoteUrl out u\<close>: \<open>u\<close> is the URL after the
  first place of \<open>out\<close> where such a text starts. \<open>specNoRemoteUrl out\<close>: no place of \<open>out\<close>
  starts such a text. These are compared with \<open>urlMatch\<close>, which is the pattern match of the
  code.\<close>

definition specHttpUrl :: "string \<Rightarrow> bool" where
  "specHttpUrl u =
     (\<exists>scheme body. u = scheme @ body
        \<and> (map toUpper scheme = ''HTTP://'' \<or> map toUpper scheme = ''HTTPS://'')
        \<and> body \<noteq> [] \<and> list_all nonSpace body)"

definition specRemoteUrlAt :: "string \<Rightarrow> string \<Rightarrow> bool" where
  "specRemoteUrlAt s u =
     (\<exists>kw ws rest. s = kw @ ws @ u @ rest
        \<and> map toUpper kw = ''REMOTE:''
        \<and> ws \<noteq> [] \<and> list_all isSpace ws
        \<and> specHttpUrl u
        \<and> (rest = [] \<or> isSpace (hd rest)))"

definition specFirstRemoteUrl :: "string \<Rightarrow> string \<Rightarrow> bool" where
  "specFirstRemoteUrl out u =
     (\<exists>k. k \<le> length out \<and> specRemoteUrlAt (drop k out) u
        \<and> (\<forall>j v. j < k \<longrightarrow> \<not> specRemoteUrlAt (drop j out) v))"

definition specNoRemoteUrl :: "string \<Rightarrow> bool" where
  "specNoRemoteUrl out = (\<forall>k v. \<not> specRemoteUrlAt (drop k out) v)"

section \<open>Facts about the single functions\<close>

subsection \<open>Sequencing and git commands\<close>

lemma andThen_Inl: "andThen (es, Inl x) f = (es, Inl x)"
  by (simp add: andThen_def)

lemma andThen_Inr: "andThen (es, Inr v) f = (es @ fst (f v), snd (f v))"
  by (simp add: andThen_def split: prod.splits)

lemma fst_after: "fst (after es m) = es @ fst m"
  by (simp add: after_def)

lemma snd_after: "snd (after es m) = snd m"
  by (simp add: after_def)

lemma runGitCommand_Some:
  "execa e args cwd = Some r \<Longrightarrow> runGitCommand e args cwd d = ([Git args cwd], Inr r)"
  by (simp add: runGitCommand_def)

lemma runGitCommand_None:
  "execa e args cwd = None \<Longrightarrow>
     runGitCommand e args cwd d =
       ([Git args cwd, ShowError (GitCommandFailed d)], Inl (Error (''Git command failed: '' @ d)))"
  by (simp add: runGitCommand_def)

lemma getCurrentBranch_Inr:
  assumes "snd (getCurrentBranch e root) = Inr b"
  shows "getCurrentBranch e root = ([Git [''branch'', ''--show-current''] root], Inr b)"
proof (cases "execa e [''branch'', ''--show-current''] root")
  case None
  with assms show ?thesis
    by (simp add: getCurrentBranch_def runGitCommand_None andThen_Inl)
next
  case (Some r)
  with assms show ?thesis
    by (simp add: getCurrentBranch_def runGitCommand_Some andThen_Inr Let_def split: if_splits)
qed

lemma getCurrentBranch_Inl:
  assumes "snd (getCurrentBranch e root) = Inl err"
  shows "list_all calm (fst (getCurrentBranch e root))"
proof (cases "execa e [''branch'', ''--show-current''] root")
  case None
  then show ?thesis
    by (simp add: getCurrentBranch_def runGitCommand_None andThen_Inl)
next
  case (Some r)
  then show ?thesis
    by (simp add: getCurrentBranch_def runGitCommand_Some andThen_Inr Let_def split: if_splits)
qed

lemma promptRemote_events: "fst (promptRemote rs c m) = [QuickPick (map (\<lambda>r. (remoteName r, remoteUrl r)) rs)]"
  by (simp add: promptRemote_def Let_def)

lemma chooseRemote_events: "ev \<in> set (fst (chooseRemote cfg c)) \<Longrightarrow> \<exists>items. ev = QuickPick items"
  by (auto simp: chooseRemote_def promptRemote_events split: if_splits)

lemma getOrigin_events:
  assumes "ev \<in> set (fst (getOrigin e root c))"
  shows "(\<exists>p. ev = ReadFile p) \<or> (\<exists>items. ev = QuickPick items)"
proof (cases "readFile e (joinPath e [root, ''.git'', ''config''])")
  case None
  with assms show ?thesis by (simp add: getOrigin_def)
next
  case (Some cfg)
  with assms have "ev = ReadFile (joinPath e [root, ''.git'', ''config'']) \<or> ev \<in> set (fst (chooseRemote cfg c))"
    by (auto simp: getOrigin_def fst_after)
  then show ?thesis using chooseRemote_events by blast
qed

lemma getOrigin_calm: "list_all calm (fst (getOrigin e root c))"
  unfolding list_all_iff using getOrigin_events by fastforce

subsection \<open>The events of target-branch resolution and of the steps after the push\<close>

lemma remoteShow_events:
  "fst (remoteShow e root name) =
     Git [''remote'', ''show'', name] root #
       (if execa e [''remote'', ''show'', name] root = None
        then [ShowError (GitCommandFailed (''show remote '' @ name))] else [])"
  by (cases "execa e [''remote'', ''show'', name] root")
     (simp_all add: remoteShow_def runGitCommand_Some runGitCommand_None)

lemma fallbackTry_calm: "list_all calm (fst (fallbackTry e root c))"
  by (cases "execa e [''branch'', ''-r''] root")
     (simp_all add: fallbackTry_def runGitCommand_Some runGitCommand_None andThen_Inl andThen_Inr
        Let_def)

lemma fallbackBranch_fst: "fst (fallbackBranch e root c) = fst (fallbackTry e root c)"
  by (simp add: fallbackBranch_def split: prod.splits sum.splits)

lemma getTargetBranch_calm: "list_all calm (fst (getTargetBranch e root name c))"
proof -
  obtain es r where rs: "remoteShow e root name = (es, r)" by (cases "remoteShow e root name")
  then have "list_all calm es" using remoteShow_events [of e root name] by (simp split: if_splits)
  with rs show ?thesis
    by (cases r) (simp_all add: getTargetBranch_def fst_after fallbackBranch_fst fallbackTry_calm)
qed

lemma switchToTarget_events:
  "\<exists>rest. switchToTarget e root t = Git [''checkout'', t] root # rest
        \<and> (\<forall>a c. Git a c \<notin> set rest) \<and> (\<forall>u. OpenExternal u \<notin> set rest)"
  by (cases "execa e [''checkout'', t] root")
     (simp_all add: switchToTarget_def runGitCommand_Some runGitCommand_None)

lemma openListing_no_git: "Git a c \<notin> set (openListing e root b)"
proof
  assume h: "Git a c \<in> set (openListing e root b)"
  obtain es r where g: "getOrigin e root (pickRemoteAgain e) = (es, r)" by (cases "getOrigin e root (pickRemoteAgain e)")
  have "Git a c \<notin> set es" using getOrigin_events [of "Git a c" e root "pickRemoteAgain e"] g by auto
  with h g show False
    by (cases r) (auto simp: openListing_def Let_def split: if_splits)
qed

lemma afterPush_snd: "snd (afterPush e root t b r) = Inr ()"
  by (simp add: afterPush_def split: option.splits)

lemma afterPush_no_push: "Git (''push'' # args) cwd \<notin> set (fst (afterPush e root t b r))"
proof -
  obtain rest where n: "switchToTarget e root t = Git [''checkout'', t] root # rest"
      "\<forall>a c. Git a c \<notin> set rest"
    using switchToTarget_events by blast
  show ?thesis
    using n openListing_no_git [of "''push'' # args" cwd e root b]
    by (auto simp: afterPush_def openMrUrl_def split: option.splits if_splits)
qed

lemma pushAndCreate_Some:
  "execa e (pushArgs (remoteName origin) b t) root = Some r \<Longrightarrow>
     pushAndCreate e root origin t b =
       (Git (pushArgs (remoteName origin) b t) root # fst (afterPush e root t b r), Inr ())"
  by (simp add: pushAndCreate_def runGitCommand_Some andThen_Inr afterPush_snd)

lemma pushAndCreate_None:
  "execa e (pushArgs (remoteName origin) b t) root = None \<Longrightarrow>
     pushAndCreate e root origin t b =
       ([Git (pushArgs (remoteName origin) b t) root,
         ShowError (GitCommandFailed ''push and create merge request'')],
        Inl (Error ''Git command failed: push and create merge request''))"
  by (simp add: pushAndCreate_def runGitCommand_None andThen_Inl)

lemma pushAndCreate_shape:
  "\<exists>post. fst (pushAndCreate e root origin t b) = Git (pushArgs (remoteName origin) b t) root # post
     \<and> Git (''push'' # args) cwd \<notin> set post
     \<and> (\<forall>r. execa e (pushArgs (remoteName origin) b t) root = Some r \<longrightarrow>
            post = fst (afterPush e root t b r) \<and> snd (pushAndCreate e root origin t b) = Inr ())
     \<and> (execa e (pushArgs (remoteName origin) b t) root = None \<longrightarrow>
            post = [ShowError (GitCommandFailed ''push and create merge request'')])"
proof (cases "execa e (pushArgs (remoteName origin) b t) root")
  case None
  then show ?thesis by (simp add: pushAndCreate_None)
next
  case (Some r)
  then show ?thesis by (simp add: pushAndCreate_Some afterPush_no_push)
qed

subsection \<open>A push is reached only through the whole chain\<close>

lemma afterMerge_push:
  assumes "Git (''push'' # args) cwd \<in> set (fst (afterMerge e root origin t b mr))"
  shows "afterMerge e root origin t b mr = pushAndCreate e root origin t b"
  using assms by (auto simp: afterMerge_def Let_def split: if_splits)

lemma mergeTarget_push:
  assumes "Git (''push'' # args) cwd \<in> set (fst (mergeTarget e root origin t b))"
  shows "mergeTarget e root origin t b =
           after [Git [''merge'', remoteName origin @ ''/'' @ t] root] (pushAndCreate e root origin t b)"
proof (cases "execa e [''merge'', remoteName origin @ ''/'' @ t] root")
  case None
  with assms show ?thesis by (simp add: mergeTarget_def runGitCommand_None andThen_Inl)
next
  case (Some mr)
  with assms have "Git (''push'' # args) cwd \<in> set (fst (afterMerge e root origin t b mr))"
    by (simp add: mergeTarget_def runGitCommand_Some andThen_Inr)
  then have "afterMerge e root origin t b mr = pushAndCreate e root origin t b"
    by (rule afterMerge_push)
  with Some show ?thesis
    by (simp add: mergeTarget_def runGitCommand_Some andThen_Inr after_def)
qed

lemma fetchAndMerge_push:
  assumes "Git (''push'' # args) cwd \<in> set (fst (fetchAndMerge e root origin t b))"
  shows "fetchAndMerge e root origin t b =
           after [Git [''fetch'', remoteName origin] root,
                  Git [''merge'', remoteName origin @ ''/'' @ t] root]
             (pushAndCreate e root origin t b)"
proof (cases "execa e [''fetch'', remoteName origin] root")
  case None
  with assms show ?thesis by (simp add: fetchAndMerge_def runGitCommand_None andThen_Inl)
next
  case (Some fr)
  show ?thesis
  proof (cases "exitCode fr = Some 0")
    case False
    with Some assms show ?thesis by (simp add: fetchAndMerge_def runGitCommand_Some andThen_Inr)
  next
    case True
    with Some assms have "Git (''push'' # args) cwd \<in> set (fst (mergeTarget e root origin t b))"
      by (simp add: fetchAndMerge_def runGitCommand_Some andThen_Inr)
    then have "mergeTarget e root origin t b =
           after [Git [''merge'', remoteName origin @ ''/'' @ t] root] (pushAndCreate e root origin t b)"
      by (rule mergeTarget_push)
    with Some True show ?thesis
      by (simp add: fetchAndMerge_def runGitCommand_Some andThen_Inr after_def)
  qed
qed

lemma calm_no_push: "list_all calm es \<Longrightarrow> Git (''push'' # args) cwd \<notin> set es"
  by (auto simp: list_all_iff)

lemma tryBody_push:
  assumes "Git (''push'' # args) cwd \<in> set (fst (tryBody e root b))"
  shows "\<exists>es1 origin es2 t.
           access e (joinPath e [root, ''.git'']) \<and>
           getOrigin e root (pickRemote e) = (es1, Inr origin) \<and>
           getTargetBranch e root (remoteName origin) (pickBranch e) = (es2, Inr t) \<and>
           tryBody e root b =
             after (Access (joinPath e [root, ''.git'']) # es1 @ es2
                    @ [Git [''fetch'', remoteName origin] root,
                       Git [''merge'', remoteName origin @ ''/'' @ t] root])
               (pushAndCreate e root origin t b)"
proof -
  let ?p = "Git (''push'' # args) cwd"
  have acc: "access e (joinPath e [root, ''.git''])"
    using assms by (auto simp: tryBody_def Let_def split: if_splits)
  obtain es1 r1 where g1: "getOrigin e root (pickRemote e) = (es1, r1)"
    by (cases "getOrigin e root (pickRemote e)")
  have c1: "?p \<notin> set es1"
    using getOrigin_calm [of e root "pickRemote e"] g1 calm_no_push by fastforce
  show ?thesis
  proof (cases r1)
    case (Inl err)
    with assms acc g1 c1 show ?thesis
      by (simp add: tryBody_def Let_def fst_after andThen_Inl)
  next
    case (Inr origin)
    obtain es2 r2 where g2: "getTargetBranch e root (remoteName origin) (pickBranch e) = (es2, r2)"
      by (cases "getTargetBranch e root (remoteName origin) (pickBranch e)")
    have c2: "?p \<notin> set es2"
      using getTargetBranch_calm [of e root "remoteName origin" "pickBranch e"] g2 calm_no_push
      by fastforce
    show ?thesis
    proof (cases r2)
      case (Inl err)
      with assms acc g1 c1 g2 c2 Inr show ?thesis
        by (simp add: tryBody_def Let_def fst_after andThen_Inl andThen_Inr)
    next
      case t: (Inr t)
      with assms acc g1 c1 g2 c2 Inr
      have "?p \<in> set (fst (fetchAndMerge e root origin t b))"
        by (simp add: tryBody_def Let_def fst_after andThen_Inl andThen_Inr)
      then have "fetchAndMerge e root origin t b =
           after [Git [''fetch'', remoteName origin] root,
                  Git [''merge'', remoteName origin @ ''/'' @ t] root]
             (pushAndCreate e root origin t b)"
        by (rule fetchAndMerge_push)
      with acc g1 g2 Inr t show ?thesis
        by (simp add: tryBody_def Let_def after_def andThen_Inr)
    qed
  qed
qed

lemma walkUp_probes_aux:
  assumes "walkUp e d = Some res"
  shows "list_all isProbe (fst res)"
  by (induct rule: walkUp.raw_induct [OF _ assms])
     (auto split: if_splits simp: Option.bind_eq_Some_conv)

lemma walkUp_probes: "walkUp e d = Some (es, r) \<Longrightarrow> list_all isProbe es"
  using walkUp_probes_aux by fastforce

lemma createMergeRequest_shape:
  assumes "createMergeRequest e = Some (tr, out)"
  shows "tr = [] \<or>
         (\<exists>probes. list_all isProbe probes \<and>
            (tr = ShowInformation Starting # probes @ [ShowError NoGitRepositoryFound]
             \<or> (\<exists>root. tr = ShowInformation Starting # probes @ fst (fromRoot e root)
                        \<and> out = snd (fromRoot e root))))"
proof (cases "repository e")
  case NoRepository
  with assms show ?thesis by (simp add: createMergeRequest_def)
next
  case (Repository rootUri)
  show ?thesis
  proof (cases rootUri)
    case (Some fsPath)
    with Repository assms
    have "tr = ShowInformation Starting # [] @ fst (fromRoot e fsPath) \<and> out = snd (fromRoot e fsPath)"
      by (auto simp: createMergeRequest_def after_def)
    moreover have "list_all isProbe []" by simp
    ultimately show ?thesis by blast
  next
    case None
    with Repository assms obtain es root where
      loc: "(case activeFile e of None \<Rightarrow> Some ([], []) | Some file \<Rightarrow> walkUp e (dirname e file)) = Some (es, root)"
      and res: "(if root = [] then Some (ShowInformation Starting # es @ [ShowError NoGitRepositoryFound], Inr ())
                else Some (after (ShowInformation Starting # es) (fromRoot e root))) = Some (tr, out)"
      by (auto simp: createMergeRequest_def Option.bind_eq_Some_conv)
    have "list_all isProbe es"
      using loc walkUp_probes by (cases "activeFile e") auto
    with res show ?thesis
      by (auto simp: after_def split: if_splits)
  qed
qed

lemma probe_calm: "list_all isProbe es \<Longrightarrow> list_all calm es"
proof (induction es)
  case Nil
  then show ?case by simp
next
  case (Cons a es)
  then show ?case by (cases a) simp_all
qed

lemma automatedFlow_shape:
  "\<exists>tail. automatedFlow e root b = fst (tryBody e root b) @ tail
      \<and> (snd (tryBody e root b) = Inr () \<longrightarrow> tail = [])
      \<and> (\<forall>a c. Git a c \<notin> set tail) \<and> (\<forall>u. OpenExternal u \<notin> set tail)"
proof -
  obtain es r where t: "tryBody e root b = (es, r)" by (cases "tryBody e root b")
  then show ?thesis by (cases r) (simp_all add: automatedFlow_def)
qed

lemma fromRoot_push:
  assumes "Git (''push'' # args) cwd \<in> set (fst (fromRoot e root))"
  shows "\<exists>b. getCurrentBranch e root = ([Git [''branch'', ''--show-current''] root], Inr b)
           \<and> startsWith b ''feat''
           \<and> fromRoot e root = (Git [''branch'', ''--show-current''] root # automatedFlow e root b, Inr ())"
proof -
  obtain es r where g: "getCurrentBranch e root = (es, r)" by (cases "getCurrentBranch e root")
  show ?thesis
  proof (cases r)
    case (Inl err)
    with g have "list_all calm es" using getCurrentBranch_Inl [of e root err] by simp
    then have "Git (''push'' # args) cwd \<notin> set es" by (rule calm_no_push)
    with assms g Inl show ?thesis by (simp add: fromRoot_def andThen_Inl)
  next
    case (Inr b)
    with g have g': "getCurrentBranch e root = ([Git [''branch'', ''--show-current''] root], Inr b)"
      using getCurrentBranch_Inr [of e root b] by simp
    with assms have "startsWith b ''feat''"
      by (auto simp: fromRoot_def andThen_Inr split: if_splits)
    with g' show ?thesis by (simp add: fromRoot_def andThen_Inr)
  qed
qed

lemma push_anatomy:
  assumes run: "createMergeRequest e = Some (tr, out)"
    and push: "Git (''push'' # args) cwd \<in> set tr"
  obtains pre b origin t es1 es2 post where
    "tr = pre @ Git (pushArgs (remoteName origin) b t) cwd # post"
    and "''push'' # args = pushArgs (remoteName origin) b t"
    and "list_all calm pre"
    and "getCurrentBranch e cwd = ([Git [''branch'', ''--show-current''] cwd], Inr b)"
    and "startsWith b ''feat''"
    and "getOrigin e cwd (pickRemote e) = (es1, Inr origin)"
    and "getTargetBranch e cwd (remoteName origin) (pickBranch e) = (es2, Inr t)"
    and "out = Inr ()"
    and "\<And>r. execa e (pushArgs (remoteName origin) b t) cwd = Some r \<Longrightarrow>
            post = fst (afterPush e cwd t b r)"
proof -
  let ?p = "Git (''push'' # args) cwd"
  have isProbe_no_push: "\<And>ps. list_all isProbe ps \<Longrightarrow> ?p \<notin> set ps"
    using probe_calm calm_no_push by blast
  from createMergeRequest_shape [OF run] push obtain probes where
    probes: "list_all isProbe probes"
    and alt: "tr = ShowInformation Starting # probes @ [ShowError NoGitRepositoryFound]
             \<or> (\<exists>root. tr = ShowInformation Starting # probes @ fst (fromRoot e root)
                        \<and> out = snd (fromRoot e root))"
    by auto
  from alt push isProbe_no_push [OF probes] obtain root where
    tr: "tr = ShowInformation Starting # probes @ fst (fromRoot e root)"
    and out: "out = snd (fromRoot e root)"
    by auto
  have pc: "list_all calm probes" using probes by (rule probe_calm)
  then have "?p \<notin> set probes" by (rule calm_no_push)
  with tr push have p1: "?p \<in> set (fst (fromRoot e root))" by simp
  from fromRoot_push [OF p1] obtain b where
    cb: "getCurrentBranch e root = ([Git [''branch'', ''--show-current''] root], Inr b)"
    and feat: "startsWith b ''feat''"
    and fr: "fromRoot e root = (Git [''branch'', ''--show-current''] root # automatedFlow e root b, Inr ())"
    by (elim exE conjE)
  from automatedFlow_shape [of e root b] obtain tail where
    af: "automatedFlow e root b = fst (tryBody e root b) @ tail"
    and tail0: "snd (tryBody e root b) = Inr () \<longrightarrow> tail = []"
    and tailg: "\<forall>a c. Git a c \<notin> set tail"
    by (elim exE conjE)
  from p1 fr af tailg have p2: "?p \<in> set (fst (tryBody e root b))" by auto
  from tryBody_push [OF p2] obtain es1 origin es2 t where
    acc: "access e (joinPath e [root, ''.git''])"
    and g1: "getOrigin e root (pickRemote e) = (es1, Inr origin)"
    and g2: "getTargetBranch e root (remoteName origin) (pickBranch e) = (es2, Inr t)"
    and tb: "tryBody e root b =
             after (Access (joinPath e [root, ''.git'']) # es1 @ es2
                    @ [Git [''fetch'', remoteName origin] root,
                       Git [''merge'', remoteName origin @ ''/'' @ t] root])
               (pushAndCreate e root origin t b)"
    by (elim exE conjE)
  from pushAndCreate_shape [of e root origin t b args cwd] obtain post where
    pc1: "fst (pushAndCreate e root origin t b) = Git (pushArgs (remoteName origin) b t) root # post"
    and pc2: "?p \<notin> set post"
    and pc3: "\<forall>r. execa e (pushArgs (remoteName origin) b t) root = Some r \<longrightarrow>
            post = fst (afterPush e root t b r) \<and> snd (pushAndCreate e root origin t b) = Inr ()"
    by (elim exE conjE)
  define pre where "pre = ShowInformation Starting # probes
      @ [Git [''branch'', ''--show-current''] root, Access (joinPath e [root, ''.git''])]
      @ es1 @ es2 @ [Git [''fetch'', remoteName origin] root,
                     Git [''merge'', remoteName origin @ ''/'' @ t] root]"
  have c1: "list_all calm es1" using getOrigin_calm [of e root "pickRemote e"] g1 by simp
  have c2: "list_all calm es2"
    using getTargetBranch_calm [of e root "remoteName origin" "pickBranch e"] g2 by simp
  have cpre: "list_all calm pre" using pc c1 c2 by (simp add: pre_def)
  have trE: "tr = pre @ Git (pushArgs (remoteName origin) b t) root # (post @ tail)"
    by (simp add: tr fr af tb fst_after pc1 pre_def)
  have npre: "?p \<notin> set pre" using cpre by (rule calm_no_push)
  from push trE npre pc2 tailg have eq: "?p = Git (pushArgs (remoteName origin) b t) root" by auto
  then have cwd: "root = cwd" and args: "''push'' # args = pushArgs (remoteName origin) b t"
    by simp_all
  have post: "post @ tail = fst (afterPush e cwd t b r)"
    if r: "execa e (pushArgs (remoteName origin) b t) cwd = Some r" for r
  proof -
    from r pc3 cwd have a: "post = fst (afterPush e root t b r)"
      and b: "snd (pushAndCreate e root origin t b) = Inr ()" by simp_all
    from b tb have "snd (tryBody e root b) = Inr ()" by (simp add: snd_after)
    with tail0 have "tail = []" by simp
    with a cwd show ?thesis by simp
  qed
  have o: "out = Inr ()" using out fr by simp
  show thesis
    by (rule that [OF trE [unfolded cwd] args cpre cb [unfolded cwd] feat g1 [unfolded cwd]
          g2 [unfolded cwd] o post])
qed

lemma events_run:
  assumes "ev \<in> set (events e)"
  shows "\<exists>out. createMergeRequest e = Some (events e, out)"
  using assms by (cases "createMergeRequest e") (auto simp: events_def)

subsection \<open>The loop of step 1 ends when \<^verbatim>\<open>path.dirname\<close> shortens its argument\<close>

lemma walkUp_returns:
  assumes shrink: "\<And>d. dirname e d = d \<or> length (dirname e d) < length d"
  shows "\<exists>r. walkUp e d = Some r"
proof (induction "length d" arbitrary: d rule: less_induct)
  case less
  show ?case
  proof (cases "d = dirname e d")
    case True
    then show ?thesis by (subst walkUp.simps) simp
  next
    case False
    with shrink [of d] have "length (dirname e d) < length d" by auto
    from less [OF this] obtain r where "walkUp e (dirname e d) = Some r" ..
    then show ?thesis by (subst walkUp.simps) simp
  qed
qed

lemma createMergeRequest_returns:
  assumes "\<And>d. dirname e d = d \<or> length (dirname e d) < length d"
  shows "\<exists>run. createMergeRequest e = Some run"
proof (cases "repository e")
  case NoRepository
  then show ?thesis by (simp add: createMergeRequest_def)
next
  case (Repository rootUri)
  show ?thesis
  proof (cases rootUri)
    case (Some fsPath)
    with Repository show ?thesis by (simp add: createMergeRequest_def)
  next
    case None
    have "\<exists>r. (case activeFile e of None \<Rightarrow> Some ([], []) | Some file \<Rightarrow> walkUp e (dirname e file)) = Some r"
      using walkUp_returns [OF assms] by (cases "activeFile e") simp_all
    then obtain es root where
      "(case activeFile e of None \<Rightarrow> Some ([], []) | Some file \<Rightarrow> walkUp e (dirname e file)) = Some (es, root)"
      by auto
    with Repository None show ?thesis by (simp add: createMergeRequest_def)
  qed
qed

section \<open>The naming check of step 0\<close>

text \<open>Whatever the branch, a name that does not start with \<^verbatim>\<open>feat\<close> ends the run after the
  query of the current branch.\<close>

lemma unaccepted_branch_stops:
  assumes "snd (getCurrentBranch e root) = Inr b" and "\<not> startsWith b ''feat''"
  shows "fromRoot e root =
           ([Git [''branch'', ''--show-current''] root, ShowError OnlyFeatBranches], Inr ())"
  using assms getCurrentBranch_Inr [OF assms(1)] by (simp add: fromRoot_def andThen_Inr)

text \<open>C1. A current branch whose name starts with neither \<^verbatim>\<open>feat\<close> nor \<^verbatim>\<open>fix\<close> is said to lead
  to one external action only, the opening of the listing page of the remote. On the branch
  \<^verbatim>\<open>main\<close> the handler asks git for the current branch, shows the message that only
  \<^verbatim>\<open>feat\<close> branches are served and returns: it merges, pushes and checks out nothing, and it
  opens no URL either.\<close>

theorem main_branch_opens_nothing:
  "createMergeRequest (world ''main'' oneOrigin showMain originBranches upToDate pushWithUrl) =
     Some ([ShowInformation Starting,
            Git [''branch'', ''--show-current''] ''/repo'',
            ShowError OnlyFeatBranches], Inr ())"
  by code_simp

text \<open>C2. A current branch whose name starts with \<^verbatim>\<open>fix\<close> is said to pass the naming check.
  On the branch \<^verbatim>\<open>fix/login\<close> the handler stops at the check, as on any branch whose name
  does not start with \<^verbatim>\<open>feat\<close>: no remote is resolved and nothing is fetched, merged or
  pushed.\<close>

theorem fix_branch_is_rejected:
  "createMergeRequest
     (world ''fix/login'' oneOrigin showMain originBranches upToDate pushWithUrl) =
     Some ([ShowInformation Starting,
            Git [''branch'', ''--show-current''] ''/repo'',
            ShowError OnlyFeatBranches], Inr ())"
  by code_simp

section \<open>Remote resolution\<close>

text \<open>The list has one item for each entry, a dismissed list gives the cancellation error,
  and the chosen entry is the one returned as long as no two entries share a name. An entry
  resolved without a list does not depend on the answer of the user.\<close>

lemma promptRemote_cancel:
  "promptRemote rs None m = ([QuickPick (map (\<lambda>r. (remoteName r, remoteUrl r)) rs)], Inl (Error m))"
  by (simp add: promptRemote_def showQuickPick_def Let_def)

lemma find_distinct_names:
  assumes "distinct (map remoteName rs)" and "i < length rs"
  shows "find (\<lambda>r. remoteName r = remoteName (rs ! i)) rs = Some (rs ! i)"
proof -
  have "\<forall>j<i. remoteName (rs ! j) \<noteq> remoteName (rs ! i)"
  proof (intro allI impI)
    fix j assume ji: "j < i"
    with assms(2) have jl: "j < length (map remoteName rs)" and il: "i < length (map remoteName rs)"
      by simp_all
    from assms(1) jl il ji have "map remoteName rs ! j \<noteq> map remoteName rs ! i"
      using nth_eq_iff_index_eq [of "map remoteName rs" j i] by simp
    with ji assms(2) show "remoteName (rs ! j) \<noteq> remoteName (rs ! i)" by simp
  qed
  with assms(2) show ?thesis by (auto simp: find_Some_iff)
qed

lemma promptRemote_distinct:
  assumes "distinct (map remoteName rs)" and "i < length rs"
  shows "promptRemote rs (Some i) m =
           ([QuickPick (map (\<lambda>r. (remoteName r, remoteUrl r)) rs)], Inr (rs ! i))"
  using assms find_distinct_names [OF assms]
  by (simp add: promptRemote_def showQuickPick_def Let_def)

lemma chooseRemote_unprompted:
  "fst (chooseRemote cfg c) = [] \<Longrightarrow> chooseRemote cfg c' = chooseRemote cfg c"
  by (auto simp: chooseRemote_def promptRemote_events split: if_splits)

lemma getOrigin_unprompted:
  assumes "fst (getOrigin e root c) = [ReadFile p]"
  shows "getOrigin e root c' = getOrigin e root c"
proof (cases "readFile e (joinPath e [root, ''.git'', ''config''])")
  case None
  then show ?thesis by (simp add: getOrigin_def)
next
  case (Some cfg)
  with assms have "fst (chooseRemote cfg c) = []"
    by (simp add: getOrigin_def fst_after)
  then have "chooseRemote cfg c' = chooseRemote cfg c" by (rule chooseRemote_unprompted)
  with Some show ?thesis by (simp add: getOrigin_def)
qed

text \<open>C3. With several entries, the list shown has one item for each and the entry returned
  is said to be the chosen one, also when entries share a name. With two sections for
  \<^verbatim>\<open>origin\<close> the list has the two items, and the user who picks the second item gets the URL
  of the first: the entry is looked up again by its name, which both share.\<close>

theorem second_origin_pick_returns_first:
  "getOrigin (world ''feat/x'' twoOrigins showMain originBranches upToDate pushWithUrl)
     ''/repo'' (Some 1) =
     ([ReadFile ''/repo/.git/config'',
       QuickPick [(''origin'', ''https://a.example/x.git''),
                  (''origin'', ''https://b.example/y.git'')]],
      Inr \<lparr>remoteName = ''origin'', remoteUrl = ''https://a.example/x.git''\<rparr>)"
  by code_simp

section \<open>The merge of step 6\<close>

text \<open>A failed merge ends the run with one error notification and no push; it is the
  conflict notification when the stream that is read holds the text of a conflict.\<close>

lemma failed_merge_never_pushes:
  "exitCode mr \<noteq> Some 0 \<Longrightarrow> \<exists>n. afterMerge e root origin t b mr = ([ShowError n], Inr ())"
  by (simp add: afterMerge_def Let_def)

lemma conflict_in_read_stream:
  assumes "exitCode mr \<noteq> Some 0"
    and "includesStr (if stderr mr \<noteq> [] then stderr mr else stdout mr)
           ''Automatic merge failed; fix conflicts and then commit the result.''"
  shows "afterMerge e root origin t b mr = ([ShowError MergeConflicts], Inr ())"
  using assms by (simp add: afterMerge_def Let_def)

text \<open>C4. A failed merge whose output holds the text of a conflict is said to end in the
  conflict notification. Here git reports the conflict on its standard output and a warning
  on its error stream; the handler reads the error stream only, since it is not empty, and
  shows the notification of a general merge failure. No push follows.\<close>

theorem conflict_on_stdout_is_missed:
  "createMergeRequest
     (world ''feat/x'' oneOrigin showMain originBranches conflictOnStdout pushWithUrl) =
     Some ([ShowInformation Starting,
            Git [''branch'', ''--show-current''] ''/repo'',
            Access ''/repo/.git'',
            ReadFile ''/repo/.git/config'',
            Git [''remote'', ''show'', ''origin''] ''/repo'',
            Git [''fetch'', ''origin''] ''/repo'',
            Git [''merge'', ''origin/main''] ''/repo'',
            ShowError (MergeFailed ''origin'' ''main'')], Inr ())"
  by code_simp

section \<open>The push and what follows it\<close>

text \<open>The URL taken from the output of the push is the match that starts first.\<close>

lemma searchFirst_leftmost:
  "searchFirst m s = Some x \<Longrightarrow>
     \<exists>k\<le>length s. m (drop k s) = Some x \<and> (\<forall>j<k. m (drop j s) = None)"
proof (induction s)
  case Nil
  then show ?case by simp
next
  case (Cons c cs)
  show ?case
  proof (cases "m (c # cs)")
    case (Some y)
    with Cons.prems have "m (drop 0 (c # cs)) = Some x" by simp
    then show ?thesis by blast
  next
    case None
    with Cons.prems have "searchFirst m cs = Some x" by simp
    from Cons.IH [OF this] obtain k where
      k: "k \<le> length cs" "m (drop k cs) = Some x" "\<forall>j<k. m (drop j cs) = None" by blast
    have "\<forall>j<Suc k. m (drop j (c # cs)) = None"
    proof (intro allI impI)
      fix j assume "j < Suc k"
      then show "m (drop j (c # cs)) = None" using None k(3) by (cases j) simp_all
    qed
    moreover have "Suc k \<le> length (c # cs)" "m (drop (Suc k) (c # cs)) = Some x" using k by simp_all
    ultimately show ?thesis by blast
  qed
qed

lemma urlMatch_leftmost:
  "urlMatch s = Some u \<Longrightarrow>
     \<exists>k\<le>length s. urlAt (drop k s) = Some u \<and> (\<forall>j<k. urlAt (drop j s) = None)"
  unfolding urlMatch_def by (rule searchFirst_leftmost)


subsection \<open>The pattern match of the code finds the first URL after \<^verbatim>\<open>remote:\<close>\<close>

text \<open>The matcher \<open>urlAt\<close> of the code succeeds at a place exactly when a URL after
  \<^verbatim>\<open>remote:\<close> stands there in the words of the specification, and with that URL; so
  \<open>urlMatch\<close> returns \<open>u\<close> exactly when \<open>u\<close> is the first such URL of the output, and returns
  nothing exactly when the output holds none.\<close>

lemma toUpper_space:
  assumes "isSpace c"
  shows "toUpper c = c"
proof -
  from assms consider "c = CHR 0x09" | "c = CHR 0x0A" | "c = CHR 0x0B" | "c = CHR 0x0C"
    | "c = CHR 0x0D" | "c = CHR 0x20" | "c = CHR 0xA0"
    by (auto simp: isSpace_def)
  then show ?thesis by cases (simp_all add: toUpper_def)
qed

lemma nonSpace_of_upper:
  assumes "map toUpper xs = ys" and "list_all nonSpace ys"
  shows "list_all nonSpace xs"
  unfolding list_all_iff
proof
  fix c assume c: "c \<in> set xs"
  show "nonSpace c"
  proof (rule ccontr)
    assume "\<not> nonSpace c"
    then have sp: "isSpace c" by (simp add: nonSpace_def)
    then have "toUpper c = c" by (rule toUpper_space)
    with c assms(1) have "c \<in> set ys" by force
    with assms(2) sp show False by (auto simp: list_all_iff nonSpace_def)
  qed
qed

lemma upper_literals:
  "map toUpper ''remote:'' = ''REMOTE:''"
  "map toUpper ''http://'' = ''HTTP://''"
  "map toUpper ''https://'' = ''HTTPS://''"
  by (simp_all add: toUpper_def)

lemma nonSpace_literals:
  "list_all nonSpace ''HTTP://''" "list_all nonSpace ''HTTPS://''"
  by (simp_all add: nonSpace_def isSpace_def)

lemma startsWithCI_remote: "startsWithCI s ''remote:'' = (map toUpper (take 7 s) = ''REMOTE:'')"
proof -
  have len: "length ''remote:'' = 7" by simp
  show ?thesis by (simp only: startsWithCI_def len upper_literals)
qed

lemma startsWithCI_http: "startsWithCI s ''http://'' = (map toUpper (take 7 s) = ''HTTP://'')"
proof -
  have len: "length ''http://'' = 7" by simp
  show ?thesis by (simp only: startsWithCI_def len upper_literals)
qed

lemma startsWithCI_https: "startsWithCI s ''https://'' = (map toUpper (take 8 s) = ''HTTPS://'')"
proof -
  have len: "length ''https://'' = 8" by simp
  show ?thesis by (simp only: startsWithCI_def len upper_literals)
qed

lemma urlAt_unfold:
  "urlAt s =
     (if map toUpper (take 7 s) = ''REMOTE:'' then
        (let a = drop 7 s; r = dropWhile isSpace a in
         if r = a then None
         else if map toUpper (take 8 r) = ''HTTPS://'' then
           (let u = takeWhile nonSpace (drop 8 r) in
            if u = [] then None else Some (take 8 r @ u))
         else if map toUpper (take 7 r) = ''HTTP://'' then
           (let u = takeWhile nonSpace (drop 7 r) in
            if u = [] then None else Some (take 7 r @ u))
         else None)
      else None)"
  by (simp only: urlAt_def startsWithCI_remote startsWithCI_http startsWithCI_https)

lemma takeWhile_stop:
  assumes "list_all P xs" and "ys = [] \<or> \<not> P (hd ys)"
  shows "takeWhile P (xs @ ys) = xs" and "dropWhile P (xs @ ys) = ys"
proof -
  have all: "\<And>x. x \<in> set xs \<Longrightarrow> P x" using assms(1) by (simp add: list_all_iff)
  have t: "takeWhile P ys = []" and d: "dropWhile P ys = ys"
    using assms(2) by (cases ys; simp)+
  show "takeWhile P (xs @ ys) = xs" using all t by (simp add: takeWhile_append2)
  show "dropWhile P (xs @ ys) = ys" using all d by (simp add: dropWhile_append2)
qed

lemma urlAt_SomeD:
  assumes "urlAt s = Some u"
  shows "map toUpper (take 7 s) = ''REMOTE:''"
    and "dropWhile isSpace (drop 7 s) \<noteq> drop 7 s"
    and "(map toUpper (take 8 (dropWhile isSpace (drop 7 s))) = ''HTTPS://''
          \<and> takeWhile nonSpace (drop 8 (dropWhile isSpace (drop 7 s))) \<noteq> []
          \<and> u = take 8 (dropWhile isSpace (drop 7 s))
                  @ takeWhile nonSpace (drop 8 (dropWhile isSpace (drop 7 s))))
         \<or> (map toUpper (take 7 (dropWhile isSpace (drop 7 s))) = ''HTTP://''
          \<and> takeWhile nonSpace (drop 7 (dropWhile isSpace (drop 7 s))) \<noteq> []
          \<and> u = take 7 (dropWhile isSpace (drop 7 s))
                  @ takeWhile nonSpace (drop 7 (dropWhile isSpace (drop 7 s))))"
  using assms
  by (simp_all only: urlAt_unfold Let_def split: if_splits) auto

lemma takeWhile_all: "list_all P (takeWhile P xs)"
  by (simp add: list_all_iff) (meson set_takeWhileD)

lemma dropWhile_stop: "dropWhile nonSpace xs = [] \<or> isSpace (hd (dropWhile nonSpace xs))"
  using hd_dropWhile [of nonSpace xs] by (auto simp: nonSpace_def)

lemma specRemoteUrlAtI:
  assumes "s = kw @ ws @ scheme @ body @ rest"
    and "map toUpper kw = ''REMOTE:''"
    and "ws \<noteq> []" and "list_all isSpace ws"
    and "map toUpper scheme = ''HTTP://'' \<or> map toUpper scheme = ''HTTPS://''"
    and "body \<noteq> []" and "list_all nonSpace body"
    and "rest = [] \<or> isSpace (hd rest)"
  shows "specRemoteUrlAt s (scheme @ body)"
proof -
  have h: "specHttpUrl (scheme @ body)"
    unfolding specHttpUrl_def
    apply (rule exI [of _ scheme])
    apply (rule exI [of _ body])
    using assms(5,6,7) apply (intro conjI refl)
      apply assumption+
    done
  show ?thesis
    unfolding specRemoteUrlAt_def
    apply (rule exI [of _ kw])
    apply (rule exI [of _ ws])
    apply (rule exI [of _ rest])
    using assms(1,2,3,4,8) h apply (intro conjI)
         apply (simp only: append_assoc)
        apply assumption+
    done
qed

lemma urlAt_sound:
  assumes "urlAt s = Some u"
  shows "specRemoteUrlAt s u"
proof -
  let ?a = "drop 7 s"
  let ?r = "dropWhile isSpace ?a"
  let ?ws = "takeWhile isSpace ?a"
  note D = urlAt_SomeD [OF assms]
  have a: "?a = ?ws @ ?r" by simp
  have wsne: "?ws \<noteq> []"
  proof
    assume "?ws = []"
    with a have "?a = ?r" by simp
    with D(2) show False by simp
  qed
  have wssp: "list_all isSpace ?ws" by (rule takeWhile_all)
  from D(3) show ?thesis
  proof (elim disjE conjE)
    let ?body = "takeWhile nonSpace (drop 8 ?r)"
    let ?rest = "dropWhile nonSpace (drop 8 ?r)"
    assume sch: "map toUpper (take 8 ?r) = ''HTTPS://''" and b: "?body \<noteq> []"
      and u: "u = take 8 ?r @ ?body"
    have "?r = take 8 ?r @ ?body @ ?rest" by simp
    with a have "?a = ?ws @ take 8 ?r @ ?body @ ?rest" by simp
    then have "take 7 s @ ?a = take 7 s @ ?ws @ take 8 ?r @ ?body @ ?rest" by (rule arg_cong)
    then have s: "s = take 7 s @ ?ws @ take 8 ?r @ ?body @ ?rest" by simp
    have "specRemoteUrlAt s (take 8 ?r @ ?body)"
      by (rule specRemoteUrlAtI [OF s D(1) wsne wssp disjI2 [OF sch] b takeWhile_all dropWhile_stop])
    with u show ?thesis by simp
  next
    let ?body = "takeWhile nonSpace (drop 7 ?r)"
    let ?rest = "dropWhile nonSpace (drop 7 ?r)"
    assume sch: "map toUpper (take 7 ?r) = ''HTTP://''" and b: "?body \<noteq> []"
      and u: "u = take 7 ?r @ ?body"
    have "?r = take 7 ?r @ ?body @ ?rest" by simp
    with a have "?a = ?ws @ take 7 ?r @ ?body @ ?rest" by simp
    then have "take 7 s @ ?a = take 7 s @ ?ws @ take 7 ?r @ ?body @ ?rest" by (rule arg_cong)
    then have s: "s = take 7 s @ ?ws @ take 7 ?r @ ?body @ ?rest" by simp
    have "specRemoteUrlAt s (take 7 ?r @ ?body)"
      by (rule specRemoteUrlAtI [OF s D(1) wsne wssp disjI1 [OF sch] b takeWhile_all dropWhile_stop])
    with u show ?thesis by simp
  qed
qed

lemma upper_length:
  assumes "map toUpper xs = ys"
  shows "length xs = length ys"
proof -
  from assms have "length (map toUpper xs) = length ys" by (rule arg_cong)
  then show ?thesis by (simp only: length_map)
qed

lemma literal_lengths:
  "length ''REMOTE:'' = 7" "length ''HTTP://'' = 7" "length ''HTTPS://'' = 8"
  by simp_all

lemma https_not_http: "take 7 ''HTTPS://'' \<noteq> ''HTTP://''"
  by simp

lemma not_both_schemes:
  assumes "map toUpper (take 7 r) = ''HTTP://''"
  shows "map toUpper (take 8 r) \<noteq> ''HTTPS://''"
proof
  assume a: "map toUpper (take 8 r) = ''HTTPS://''"
  have m: "min (7::nat) 8 = 7" by simp
  from a have "take 7 (map toUpper (take 8 r)) = take 7 ''HTTPS://''" by (rule arg_cong)
  then have "map toUpper (take 7 r) = take 7 ''HTTPS://''"
    by (simp only: take_map take_take m)
  with assms have "take 7 ''HTTPS://'' = ''HTTP://''" by (simp only:)
  with https_not_http show False by (rule notE)
qed

lemma urlAt_complete:
  assumes "specRemoteUrlAt s u"
  shows "urlAt s = Some u"
proof -
  from assms obtain kw ws rest where
    s: "s = kw @ ws @ u @ rest" and kw: "map toUpper kw = ''REMOTE:''"
    and wsne: "ws \<noteq> []" and wssp: "list_all isSpace ws" and h: "specHttpUrl u"
    and rest: "rest = [] \<or> isSpace (hd rest)"
    unfolding specRemoteUrlAt_def by (elim exE conjE)
  from h obtain scheme body where
    u: "u = scheme @ body"
    and sch: "map toUpper scheme = ''HTTP://'' \<or> map toUpper scheme = ''HTTPS://''"
    and bne: "body \<noteq> []" and bns: "list_all nonSpace body"
    unfolding specHttpUrl_def by (elim exE conjE)
  have lkw: "length kw = 7" using upper_length [OF kw] by (simp only: literal_lengths)
  have t7: "take 7 s = kw" and d7: "drop 7 s = ws @ u @ rest" using s lkw by simp_all
  have c1: "map toUpper (take 7 s) = ''REMOTE:''" using kw t7 by (simp only:)
  have schns: "list_all nonSpace scheme"
    using sch
  proof
    assume "map toUpper scheme = ''HTTP://''"
    then show ?thesis by (rule nonSpace_of_upper) (rule nonSpace_literals(1))
  next
    assume "map toUpper scheme = ''HTTPS://''"
    then show ?thesis by (rule nonSpace_of_upper) (rule nonSpace_literals(2))
  qed
  have schlen: "7 \<le> length scheme"
    using sch
  proof
    assume "map toUpper scheme = ''HTTP://''"
    from upper_length [OF this] show ?thesis by (simp only: literal_lengths)
  next
    assume "map toUpper scheme = ''HTTPS://''"
    from upper_length [OF this] show ?thesis by (simp only: literal_lengths)
  qed
  then have schne: "scheme \<noteq> []" by auto
  have hdns: "\<not> isSpace (hd (u @ rest))"
    using schns schne u by (cases scheme) (simp_all add: nonSpace_def)
  then have stop: "u @ rest = [] \<or> \<not> isSpace (hd (u @ rest))" by simp
  have r: "dropWhile isSpace (ws @ u @ rest) = u @ rest"
    by (rule takeWhile_stop(2) [OF wssp stop])
  have c2: "u @ rest \<noteq> ws @ u @ rest"
  proof
    assume "u @ rest = ws @ u @ rest"
    then have "length (u @ rest) = length (ws @ u @ rest)" by (rule arg_cong)
    with wsne show False by simp
  qed
  have stop2: "rest = [] \<or> \<not> nonSpace (hd rest)" using rest by (simp add: nonSpace_def)
  have body: "takeWhile nonSpace (body @ rest) = body" by (rule takeWhile_stop(1) [OF bns stop2])
  from sch show ?thesis
  proof
    assume up: "map toUpper scheme = ''HTTPS://''"
    have l: "length scheme = 8" using upper_length [OF up] by (simp only: literal_lengths)
    have t: "take 8 (u @ rest) = scheme" and d: "drop 8 (u @ rest) = body @ rest"
      using u l by simp_all
    have c3: "map toUpper (take 8 (u @ rest)) = ''HTTPS://''" using up t by (simp only:)
    have "urlAt s = Some (scheme @ body)"
      by (simp only: urlAt_unfold Let_def c1 d7 r c2 c3 up t d body bne if_True if_False simp_thms)
    with u show ?thesis by (simp only:)
  next
    assume up: "map toUpper scheme = ''HTTP://''"
    have l: "length scheme = 7" using upper_length [OF up] by (simp only: literal_lengths)
    have t: "take 7 (u @ rest) = scheme" and d: "drop 7 (u @ rest) = body @ rest"
      using u l by simp_all
    have c4: "map toUpper (take 7 (u @ rest)) = ''HTTP://''" using up t by (simp only:)
    have c3: "map toUpper (take 8 (u @ rest)) \<noteq> ''HTTPS://''" by (rule not_both_schemes [OF c4])
    have "urlAt s = Some (scheme @ body)"
      by (simp only: urlAt_unfold Let_def c1 d7 r c2 c3 c4 up t d body bne if_True if_False simp_thms)
    with u show ?thesis by (simp only:)
  qed
qed

lemma urlAt_iff: "urlAt s = Some u \<longleftrightarrow> specRemoteUrlAt s u"
  using urlAt_sound urlAt_complete by blast

lemma searchFirst_first:
  assumes "k \<le> length s" and "m (drop k s) = Some x" and "\<And>j. j < k \<Longrightarrow> m (drop j s) = None"
  shows "searchFirst m s = Some x"
  using assms
proof (induction s arbitrary: k)
  case Nil
  then show ?case by simp
next
  case (Cons c cs)
  show ?case
  proof (cases k)
    case 0
    with Cons.prems(2) show ?thesis by simp
  next
    case (Suc k')
    then have "m (drop 0 (c # cs)) = None" using Cons.prems(3) [of 0] by simp
    then have here: "m (c # cs) = None" by simp
    have "searchFirst m cs = Some x"
    proof (rule Cons.IH [of k'])
      show "k' \<le> length cs" using Cons.prems(1) Suc by simp
      show "m (drop k' cs) = Some x" using Cons.prems(2) Suc by simp
      fix j assume "j < k'"
      then have "Suc j < k" using Suc by simp
      from Cons.prems(3) [OF this] show "m (drop j cs) = None" by simp
    qed
    with here show ?thesis by simp
  qed
qed

lemma searchFirst_None:
  "searchFirst m s = None \<longleftrightarrow> (\<forall>k. m (drop k s) = None)"
proof (induction s)
  case Nil
  then show ?case by simp
next
  case (Cons c cs)
  show ?case
  proof
    assume a: "searchFirst m (c # cs) = None"
    then have here: "m (c # cs) = None" by (simp split: option.splits)
    with a have "searchFirst m cs = None" by simp
    with Cons.IH have tl: "\<forall>k. m (drop k cs) = None" by simp
    show "\<forall>k. m (drop k (c # cs)) = None"
    proof
      fix k show "m (drop k (c # cs)) = None" using here tl by (cases k) simp_all
    qed
  next
    assume a: "\<forall>k. m (drop k (c # cs)) = None"
    then have "m (drop 0 (c # cs)) = None" ..
    then have here: "m (c # cs) = None" by simp
    have "\<forall>k. m (drop k cs) = None"
    proof
      fix k from a have "m (drop (Suc k) (c # cs)) = None" ..
      then show "m (drop k cs) = None" by simp
    qed
    with Cons.IH have "searchFirst m cs = None" by simp
    with here show "searchFirst m (c # cs) = None" by simp
  qed
qed

lemma specRemoteUrlAt_None: "urlAt s = None \<longleftrightarrow> (\<forall>v. \<not> specRemoteUrlAt s v)"
proof
  assume a: "urlAt s = None"
  show "\<forall>v. \<not> specRemoteUrlAt s v"
  proof (intro allI notI)
    fix v assume "specRemoteUrlAt s v"
    then have "urlAt s = Some v" by (rule urlAt_complete)
    with a show False by simp
  qed
next
  assume a: "\<forall>v. \<not> specRemoteUrlAt s v"
  show "urlAt s = None"
  proof (cases "urlAt s")
    case None then show ?thesis .
  next
    case (Some v)
    then have "specRemoteUrlAt s v" by (rule urlAt_sound)
    with a show ?thesis by simp
  qed
qed

lemma urlMatch_first_iff: "urlMatch out = Some u \<longleftrightarrow> specFirstRemoteUrl out u"
proof
  assume "urlMatch out = Some u"
  from urlMatch_leftmost [OF this] obtain k where
    k: "k \<le> length out" and at: "urlAt (drop k out) = Some u"
    and before: "\<forall>j<k. urlAt (drop j out) = None"
    by (elim exE conjE)
  have "specRemoteUrlAt (drop k out) u" using at by (rule urlAt_sound)
  moreover have "\<forall>j v. j < k \<longrightarrow> \<not> specRemoteUrlAt (drop j out) v"
    using before by (simp add: specRemoteUrlAt_None)
  ultimately show "specFirstRemoteUrl out u" unfolding specFirstRemoteUrl_def using k by (intro exI conjI)
next
  assume "specFirstRemoteUrl out u"
  then obtain k where
    k: "k \<le> length out" and at: "specRemoteUrlAt (drop k out) u"
    and before: "\<forall>j v. j < k \<longrightarrow> \<not> specRemoteUrlAt (drop j out) v"
    unfolding specFirstRemoteUrl_def by (elim exE conjE)
  have at': "urlAt (drop k out) = Some u" using at by (rule urlAt_complete)
  have before': "\<And>j. j < k \<Longrightarrow> urlAt (drop j out) = None"
    using before by (simp add: specRemoteUrlAt_None)
  show "urlMatch out = Some u"
    unfolding urlMatch_def by (rule searchFirst_first [where m = urlAt, OF k at' before'])
qed

lemma urlMatch_none_iff: "urlMatch out = None \<longleftrightarrow> specNoRemoteUrl out"
  by (simp only: urlMatch_def searchFirst_None [where m = urlAt] specNoRemoteUrl_def
        specRemoteUrlAt_None)

lemma specFirstRemoteUrl_unique:
  assumes "specFirstRemoteUrl out u" and "specFirstRemoteUrl out v"
  shows "u = v"
proof -
  from assms have "urlMatch out = Some u" "urlMatch out = Some v"
    by (simp_all only: urlMatch_first_iff)
  then show ?thesis by simp
qed

lemma specRemoteUrl_cases: "specNoRemoteUrl out \<or> (\<exists>u. specFirstRemoteUrl out u)"
proof (cases "urlMatch out")
  case None
  then have "specNoRemoteUrl out" by (simp only: urlMatch_none_iff)
  then show ?thesis ..
next
  case (Some u)
  then have "specFirstRemoteUrl out u" by (simp only: urlMatch_first_iff)
  then show ?thesis by blast
qed



subsection \<open>The listing page, when the output of the push holds no URL\<close>





text \<open>When the user picks the other entry of the second list, the listing page of
  \<^verbatim>\<open>alpha\<close> is opened although the push went to \<^verbatim>\<open>beta\<close>.\<close>

lemma second_pick_decides_listing:
  "events otherRemoteWorld =
       [ShowInformation Starting,
        Git [''branch'', ''--show-current''] ''/repo'',
        Access ''/repo/.git'',
        ReadFile ''/repo/.git/config'',
        QuickPick [(''alpha'', ''https://a.example/x.git''), (''beta'', ''https://b.example/y.git'')],
        Git [''remote'', ''show'', ''beta''] ''/repo'',
        Git [''fetch'', ''beta''] ''/repo'',
        Git [''merge'', ''beta/main''] ''/repo'',
        Git [''push'', ''beta'', ''feat/x'', ''-o'', ''merge_request.create'',
             ''-o'', ''merge_request.target=main'',
             ''-o'', ''merge_request.remove_source_branch=false'',
             ''-o'', ''merge_request.title=feat/x''] ''/repo'',
        ReadFile ''/repo/.git/config'',
        QuickPick [(''alpha'', ''https://a.example/x.git''), (''beta'', ''https://b.example/y.git'')],
        OpenExternal ''https://a.example/x/-/merge_requests'',
        ShowInformation (PushedAndNavigated ''feat/x'')]"
  by code_simp



text \<open>C7. Every push that a run issues is made in the workspace root with the name of the
  resolved remote, the current branch and exactly four options, each after \<^verbatim>\<open>-o\<close>:
  \<^verbatim>\<open>merge_request.create\<close>, \<^verbatim>\<open>merge_request.target=\<close> with the resolved target branch,
  \<^verbatim>\<open>merge_request.remove_source_branch=false\<close> and \<^verbatim>\<open>merge_request.title=\<close> with the current
  branch.\<close>

theorem push_carries_four_options:
  assumes push: "Git (''push'' # args) cwd \<in> set (events e)"
  shows "\<exists>origin b t.
           snd (getCurrentBranch e cwd) = Inr b
           \<and> snd (getOrigin e cwd (pickRemote e)) = Inr origin
           \<and> snd (getTargetBranch e cwd (remoteName origin) (pickBranch e)) = Inr t
           \<and> ''push'' # args =
               [''push'', remoteName origin, b,
                ''-o'', ''merge_request.create'',
                ''-o'', ''merge_request.target='' @ t,
                ''-o'', ''merge_request.remove_source_branch=false'',
                ''-o'', ''merge_request.title='' @ b]"
proof -
  from events_run [OF push] obtain out where run: "createMergeRequest e = Some (events e, out)" ..
  from run push obtain pre origin b t post es1 es2 where
    tr: "events e = pre @ Git (pushArgs (remoteName origin) b t) cwd # post"
    and args: "''push'' # args = pushArgs (remoteName origin) b t"
    and pre: "list_all calm pre"
    and cb: "getCurrentBranch e cwd = ([Git [''branch'', ''--show-current''] cwd], Inr b)"
    and feat: "startsWith b ''feat''"
    and g1: "getOrigin e cwd (pickRemote e) = (es1, Inr origin)"
    and g2: "getTargetBranch e cwd (remoteName origin) (pickBranch e) = (es2, Inr t)"
    and out: "out = Inr ()"
    and post: "\<And>r. execa e (pushArgs (remoteName origin) b t) cwd = Some r \<Longrightarrow>
            post = fst (afterPush e cwd t b r)"
    by (rule push_anatomy) (rule that)
  have "snd (getCurrentBranch e cwd) = Inr b
           \<and> snd (getOrigin e cwd (pickRemote e)) = Inr origin
           \<and> snd (getTargetBranch e cwd (remoteName origin) (pickBranch e)) = Inr t
           \<and> ''push'' # args =
               [''push'', remoteName origin, b,
                ''-o'', ''merge_request.create'',
                ''-o'', ''merge_request.target='' @ t,
                ''-o'', ''merge_request.remove_source_branch=false'',
                ''-o'', ''merge_request.title='' @ b]"
    using args cb g1 g2 by (simp add: pushArgs_def)
  then show ?thesis by blast
qed

text \<open>The run of \<open>featWorld\<close> issues such a push.\<close>

theorem push_carries_four_options_witness:
  "Git (''push'' # [''origin'', ''feat/x'', ''-o'', ''merge_request.create'',
                    ''-o'', ''merge_request.target=main'',
                    ''-o'', ''merge_request.remove_source_branch=false'',
                    ''-o'', ''merge_request.title=feat/x'']) ''/repo'' \<in> set (events featWorld)
   \<and> (\<exists>origin b t.
           snd (getCurrentBranch featWorld ''/repo'') = Inr b
           \<and> snd (getOrigin featWorld ''/repo'' (pickRemote featWorld)) = Inr origin
           \<and> snd (getTargetBranch featWorld ''/repo'' (remoteName origin) (pickBranch featWorld)) = Inr t
           \<and> ''push'' # [''origin'', ''feat/x'', ''-o'', ''merge_request.create'',
                    ''-o'', ''merge_request.target=main'',
                    ''-o'', ''merge_request.remove_source_branch=false'',
                    ''-o'', ''merge_request.title=feat/x''] =
               [''push'', remoteName origin, b,
                ''-o'', ''merge_request.create'',
                ''-o'', ''merge_request.target='' @ t,
                ''-o'', ''merge_request.remove_source_branch=false'',
                ''-o'', ''merge_request.title='' @ b])"
proof -
  have h: "Git (''push'' # [''origin'', ''feat/x'', ''-o'', ''merge_request.create'',
                    ''-o'', ''merge_request.target=main'',
                    ''-o'', ''merge_request.remove_source_branch=false'',
                    ''-o'', ''merge_request.title=feat/x'']) ''/repo'' \<in> set (events featWorld)"
    by code_simp
  from h push_carries_four_options [OF h] show ?thesis by (rule conjI)
qed

section \<open>Target-branch resolution\<close>






section \<open>The order of the first steps\<close>

lemma getCurrentBranch_events:
  "fst (getCurrentBranch e root) =
     Git [''branch'', ''--show-current''] root #
       (if execa e [''branch'', ''--show-current''] root = None
        then [ShowError (GitCommandFailed ''get current branch'')] else [])"
  by (cases "execa e [''branch'', ''--show-current''] root")
     (simp_all add: getCurrentBranch_def runGitCommand_Some runGitCommand_None andThen_Inl
        andThen_Inr Let_def)

lemma tryBody_first:
  "\<exists>post. fst (tryBody e root b) = Access (joinPath e [root, ''.git'']) # post
       \<and> (\<not> access e (joinPath e [root, ''.git'']) \<longrightarrow>
            tryBody e root b = ([Access (joinPath e [root, ''.git'']), ShowError NotAGitRepository], Inr ()))"
  by (simp add: tryBody_def Let_def fst_after)

text \<open>C9 says that the root is validated as a git repository before the current branch is
  queried. The run of \<open>featWorld\<close> shows the order of the handler: the query of the current
  branch comes first, the access check of \<^verbatim>\<open>.git\<close> second.\<close>

theorem branch_query_precedes_validation_run:
  "createMergeRequest featWorld =
     Some ([ShowInformation Starting,
            Git [''branch'', ''--show-current''] ''/repo'',
            Access ''/repo/.git'',
            ReadFile ''/repo/.git/config'',
            Git [''remote'', ''show'', ''origin''] ''/repo'',
            Git [''fetch'', ''origin''] ''/repo'',
            Git [''merge'', ''origin/main''] ''/repo'',
            Git [''push'', ''origin'', ''feat/x'', ''-o'', ''merge_request.create'',
                 ''-o'', ''merge_request.target=main'',
                 ''-o'', ''merge_request.remove_source_branch=false'',
                 ''-o'', ''merge_request.title=feat/x''] ''/repo'',
            OpenExternal ''https://example.com/group/proj/-/merge_requests/42'',
            ShowInformation (CreatedAndOpened ''main''),
            Git [''checkout'', ''main''] ''/repo'',
            ShowInformation (Switched ''main'')], Inr ())"
  by code_simp

text \<open>The loop of step 1 makes nothing but access checks; when it finds a root, its last
  check is the one of \<^verbatim>\<open>.git\<close> in that root, which succeeded, and all checks before it
  failed. From the root on, the query of the current branch comes first.\<close>

lemma walkUp_found_aux:
  assumes "walkUp e d = Some res"
  shows "list_all isProbe (fst res)
         \<and> (snd res \<noteq> [] \<longrightarrow>
              fst res \<noteq> []
              \<and> last (fst res) = Access (joinPath e [snd res, ''.git''])
              \<and> access e (joinPath e [snd res, ''.git''])
              \<and> (\<forall>p. Access p \<in> set (butlast (fst res)) \<longrightarrow> \<not> access e p))"
  by (induct rule: walkUp.raw_induct [OF _ assms])
     (auto split: if_splits simp: Option.bind_eq_Some_conv)

lemma walkUp_found:
  assumes "walkUp e d = Some (es, root)"
  shows "list_all isProbe es"
    and "root \<noteq> [] \<Longrightarrow> es \<noteq> []"
    and "root \<noteq> [] \<Longrightarrow> last es = Access (joinPath e [root, ''.git''])"
    and "root \<noteq> [] \<Longrightarrow> access e (joinPath e [root, ''.git''])"
    and "root \<noteq> [] \<Longrightarrow> Access p \<in> set (butlast es) \<Longrightarrow> \<not> access e p"
  using walkUp_found_aux [OF assms] by simp_all

lemma fromRoot_failed_query:
  assumes "snd (getCurrentBranch e root) = Inl err"
  shows "\<exists>rest. fst (fromRoot e root) = Git [''branch'', ''--show-current''] root # rest
           \<and> (\<forall>p. Access p \<notin> set rest) \<and> (\<forall>q. ReadFile q \<notin> set rest)"
proof -
  obtain es where g: "getCurrentBranch e root = (es, Inl err)"
    using assms by (cases "getCurrentBranch e root") simp
  then have f: "fst (fromRoot e root) = es" by (simp add: fromRoot_def andThen_Inl)
  show ?thesis
  proof (cases "execa e [''branch'', ''--show-current''] root")
    case None
    with getCurrentBranch_events [of e root] g f
    have "fst (fromRoot e root) = Git [''branch'', ''--show-current''] root
            # [ShowError (GitCommandFailed ''get current branch'')]" by simp
    moreover have "\<forall>p. Access p \<notin> set [ShowError (GitCommandFailed ''get current branch'')]"
      by simp
    moreover have "\<forall>q. ReadFile q \<notin> set [ShowError (GitCommandFailed ''get current branch'')]"
      by simp
    ultimately show ?thesis by (intro exI conjI)
  next
    case (Some r)
    with getCurrentBranch_events [of e root] g f
    have "fst (fromRoot e root) = Git [''branch'', ''--show-current''] root # []" by simp
    moreover have "\<forall>p. Access p \<notin> set []" by simp
    moreover have "\<forall>q. ReadFile q \<notin> set []" by simp
    ultimately show ?thesis by (intro exI conjI)
  qed
qed

lemma fromRoot_rejected:
  assumes "snd (getCurrentBranch e root) = Inr b" and "\<not> startsWith b ''feat''"
  shows "fst (fromRoot e root)
           = [Git [''branch'', ''--show-current''] root, ShowError OnlyFeatBranches]"
proof -
  from getCurrentBranch_Inr [OF assms(1)]
  have "getCurrentBranch e root = ([Git [''branch'', ''--show-current''] root], Inr b)" .
  with assms(2) show ?thesis by (simp add: fromRoot_def andThen_Inr)
qed

lemma fromRoot_accepted:
  assumes "snd (getCurrentBranch e root) = Inr b" and "startsWith b ''feat''"
  shows "\<exists>post. fst (fromRoot e root)
                  = Git [''branch'', ''--show-current''] root
                      # Access (joinPath e [root, ''.git'']) # post
           \<and> ((\<exists>q. ReadFile q \<in> set post) \<longrightarrow> access e (joinPath e [root, ''.git'']))"
proof -
  let ?g = "joinPath e [root, ''.git'']"
  from getCurrentBranch_Inr [OF assms(1)]
  have "getCurrentBranch e root = ([Git [''branch'', ''--show-current''] root], Inr b)" .
  with assms(2) have fr: "fst (fromRoot e root)
      = Git [''branch'', ''--show-current''] root # automatedFlow e root b"
    by (simp add: fromRoot_def andThen_Inr)
  from automatedFlow_shape [of e root b] obtain tail where
    af: "automatedFlow e root b = fst (tryBody e root b) @ tail"
    and tail0: "snd (tryBody e root b) = Inr () \<longrightarrow> tail = []"
    by (elim exE conjE)
  from tryBody_first [of e root b] obtain post where
    tb: "fst (tryBody e root b) = Access ?g # post"
    and na: "\<not> access e ?g \<longrightarrow>
          tryBody e root b = ([Access ?g, ShowError NotAGitRepository], Inr ())"
    by (elim exE conjE)
  have eq: "fst (fromRoot e root)
      = Git [''branch'', ''--show-current''] root # Access ?g # (post @ tail)"
    using fr af tb by simp
  have rd: "(\<exists>q. ReadFile q \<in> set (post @ tail)) \<longrightarrow> access e ?g"
  proof (intro impI, rule ccontr)
    assume rf: "\<exists>q. ReadFile q \<in> set (post @ tail)" and "\<not> access e ?g"
    with na have t: "tryBody e root b = ([Access ?g, ShowError NotAGitRepository], Inr ())"
      by simp
    with tail0 have "tail = []" by simp
    moreover from t tb have "post = [ShowError NotAGitRepository]" by simp
    ultimately show False using rf by simp
  qed
  from eq rd show ?thesis by (intro exI conjI)
qed

lemma fromRoot_order:
  "\<exists>rest. fst (fromRoot e root) = Git [''branch'', ''--show-current''] root # rest
     \<and> ((\<exists>p. Access p \<in> set rest) \<longrightarrow>
          (\<exists>b post. rest = Access (joinPath e [root, ''.git'']) # post
             \<and> snd (getCurrentBranch e root) = Inr b \<and> startsWith b ''feat''))
     \<and> ((\<exists>b. snd (getCurrentBranch e root) = Inr b \<and> startsWith b ''feat'') \<longrightarrow>
          (\<exists>post. rest = Access (joinPath e [root, ''.git'']) # post))
     \<and> ((\<exists>q. ReadFile q \<in> set rest) \<longrightarrow> access e (joinPath e [root, ''.git'']))"
proof -
  let ?g = "joinPath e [root, ''.git'']"
  consider (failed) err where "snd (getCurrentBranch e root) = Inl err"
    | (rejected) b where "snd (getCurrentBranch e root) = Inr b" and "\<not> startsWith b ''feat''"
    | (accepted) b where "snd (getCurrentBranch e root) = Inr b" and "startsWith b ''feat''"
    by (cases "snd (getCurrentBranch e root)") auto
  then show ?thesis
  proof cases
    case failed
    from fromRoot_failed_query [OF failed] obtain rest where
      eq: "fst (fromRoot e root) = Git [''branch'', ''--show-current''] root # rest"
      and na: "\<forall>p. Access p \<notin> set rest" and nr: "\<forall>q. ReadFile q \<notin> set rest"
      by (elim exE conjE)
    have a: "(\<exists>p. Access p \<in> set rest) \<longrightarrow>
          (\<exists>b post. rest = Access ?g # post
             \<and> snd (getCurrentBranch e root) = Inr b \<and> startsWith b ''feat'')"
      using na by simp
    have b: "(\<exists>b. snd (getCurrentBranch e root) = Inr b \<and> startsWith b ''feat'') \<longrightarrow>
          (\<exists>post. rest = Access ?g # post)"
      using failed by simp
    have c: "(\<exists>q. ReadFile q \<in> set rest) \<longrightarrow> access e ?g" using nr by simp
    from eq a b c show ?thesis by (intro exI conjI)
  next
    case rejected
    let ?rest = "[ShowError OnlyFeatBranches]"
    from fromRoot_rejected [OF rejected]
    have eq: "fst (fromRoot e root) = Git [''branch'', ''--show-current''] root # ?rest" .
    have a: "(\<exists>p. Access p \<in> set ?rest) \<longrightarrow>
          (\<exists>b post. ?rest = Access ?g # post
             \<and> snd (getCurrentBranch e root) = Inr b \<and> startsWith b ''feat'')"
      by simp
    have b: "(\<exists>b. snd (getCurrentBranch e root) = Inr b \<and> startsWith b ''feat'') \<longrightarrow>
          (\<exists>post. ?rest = Access ?g # post)"
      using rejected by simp
    have c: "(\<exists>q. ReadFile q \<in> set ?rest) \<longrightarrow> access e ?g" by simp
    from eq a b c show ?thesis by (intro exI conjI)
  next
    case accepted
    from fromRoot_accepted [OF accepted] obtain post where
      eq: "fst (fromRoot e root)
             = Git [''branch'', ''--show-current''] root # Access ?g # post"
      and rd: "(\<exists>q. ReadFile q \<in> set post) \<longrightarrow> access e ?g"
      by (elim exE conjE)
    have "Access ?g # post = Access ?g # post
             \<and> snd (getCurrentBranch e root) = Inr b \<and> startsWith b ''feat''"
      using accepted by simp
    then have "\<exists>b post'. Access ?g # post = Access ?g # post'
             \<and> snd (getCurrentBranch e root) = Inr b \<and> startsWith b ''feat''"
      by (intro exI)
    then have a: "(\<exists>p. Access p \<in> set (Access ?g # post)) \<longrightarrow>
          (\<exists>b post'. Access ?g # post = Access ?g # post'
             \<and> snd (getCurrentBranch e root) = Inr b \<and> startsWith b ''feat'')"
      by (rule impI)
    have "\<exists>post'. Access ?g # post = Access ?g # post'" by (rule exI) (rule refl)
    then have b: "(\<exists>b. snd (getCurrentBranch e root) = Inr b \<and> startsWith b ''feat'') \<longrightarrow>
          (\<exists>post'. Access ?g # post = Access ?g # post')"
      by (rule impI)
    have c: "(\<exists>q. ReadFile q \<in> set (Access ?g # post)) \<longrightarrow> access e ?g"
      using rd by simp
    from eq a b c show ?thesis by (intro exI conjI)
  qed
qed

text \<open>C9, amended. Every run that returns has one of three shapes. Without a repository
  argument the handler throws before any event. Otherwise the run starts with the start
  message, followed by the access checks of the loop of step 1: none when the caller hands
  over the root, and at least one when the root is found by walking up, the last of them the
  successful check of \<^verbatim>\<open>.git\<close> in the located root, all earlier ones failed. When no root is
  found the run ends there with an error notification. When a root is located, the next
  event is the query of the current branch, the first git command of the run. The access
  check of step 2 on \<^verbatim>\<open>.git\<close> in the root is made exactly when that query has returned a name
  that starts with \<^verbatim>\<open>feat\<close>, directly after the query, and the configuration is read only
  after that check has succeeded. So with a root handed over by the caller nothing validates
  the root before the branch query, and with a root found by walking up the only validation
  before the query is the loop's own check.\<close>

theorem validation_follows_branch_query:
  assumes run: "createMergeRequest e = Some (tr, out)"
  shows "(repository e = NoRepository \<and> tr = [])
       \<or> (\<exists>probes. list_all isProbe probes
            \<and> (repository e = Repository None
                 \<and> tr = ShowInformation Starting # probes @ [ShowError NoGitRepositoryFound]
               \<or> (\<exists>root rest.
                    tr = ShowInformation Starting # probes
                           @ Git [''branch'', ''--show-current''] root # rest
                    \<and> (repository e = Repository (Some root) \<and> probes = []
                       \<or> repository e = Repository None \<and> probes \<noteq> []
                          \<and> last probes = Access (joinPath e [root, ''.git''])
                          \<and> access e (joinPath e [root, ''.git''])
                          \<and> (\<forall>p. Access p \<in> set (butlast probes) \<longrightarrow> \<not> access e p))
                    \<and> ((\<exists>p. Access p \<in> set rest) \<longrightarrow>
                          (\<exists>b post. rest = Access (joinPath e [root, ''.git'']) # post
                             \<and> snd (getCurrentBranch e root) = Inr b \<and> startsWith b ''feat''))
                    \<and> ((\<exists>b. snd (getCurrentBranch e root) = Inr b \<and> startsWith b ''feat'') \<longrightarrow>
                          (\<exists>post. rest = Access (joinPath e [root, ''.git'']) # post))
                    \<and> ((\<exists>q. ReadFile q \<in> set rest) \<longrightarrow>
                          access e (joinPath e [root, ''.git''])))))"
proof -
  let ?found = "\<lambda>probes root rest.
      tr = ShowInformation Starting # probes @ Git [''branch'', ''--show-current''] root # rest
      \<and> (repository e = Repository (Some root) \<and> probes = []
         \<or> repository e = Repository None \<and> probes \<noteq> []
            \<and> last probes = Access (joinPath e [root, ''.git''])
            \<and> access e (joinPath e [root, ''.git''])
            \<and> (\<forall>p. Access p \<in> set (butlast probes) \<longrightarrow> \<not> access e p))
      \<and> ((\<exists>p. Access p \<in> set rest) \<longrightarrow>
            (\<exists>b post. rest = Access (joinPath e [root, ''.git'']) # post
               \<and> snd (getCurrentBranch e root) = Inr b \<and> startsWith b ''feat''))
      \<and> ((\<exists>b. snd (getCurrentBranch e root) = Inr b \<and> startsWith b ''feat'') \<longrightarrow>
            (\<exists>post. rest = Access (joinPath e [root, ''.git'']) # post))
      \<and> ((\<exists>q. ReadFile q \<in> set rest) \<longrightarrow> access e (joinPath e [root, ''.git'']))"
  let ?alt = "\<lambda>probes.
      repository e = Repository None
        \<and> tr = ShowInformation Starting # probes @ [ShowError NoGitRepositoryFound]
      \<or> (\<exists>root rest. ?found probes root rest)"
  have located: "\<exists>probes. list_all isProbe probes \<and> ?alt probes"
    if pr: "list_all isProbe probes"
      and tr: "tr = ShowInformation Starting # probes @ fst (fromRoot e root)"
      and how: "repository e = Repository (Some root) \<and> probes = []
        \<or> repository e = Repository None \<and> probes \<noteq> []
           \<and> last probes = Access (joinPath e [root, ''.git''])
           \<and> access e (joinPath e [root, ''.git''])
           \<and> (\<forall>p. Access p \<in> set (butlast probes) \<longrightarrow> \<not> access e p)"
    for probes root
  proof -
    from fromRoot_order [of e root] obtain rest where
      eq: "fst (fromRoot e root) = Git [''branch'', ''--show-current''] root # rest"
      and a: "(\<exists>p. Access p \<in> set rest) \<longrightarrow>
          (\<exists>b post. rest = Access (joinPath e [root, ''.git'']) # post
             \<and> snd (getCurrentBranch e root) = Inr b \<and> startsWith b ''feat'')"
      and b: "(\<exists>b. snd (getCurrentBranch e root) = Inr b \<and> startsWith b ''feat'') \<longrightarrow>
          (\<exists>post. rest = Access (joinPath e [root, ''.git'']) # post)"
      and c: "(\<exists>q. ReadFile q \<in> set rest) \<longrightarrow> access e (joinPath e [root, ''.git''])"
      by (elim exE conjE)
    from tr eq have tr': "tr = ShowInformation Starting # probes
                           @ Git [''branch'', ''--show-current''] root # rest"
      by (simp only:)
    from tr' how a b c have "?found probes root rest" by (intro conjI)
    then have "\<exists>root rest. ?found probes root rest" by (intro exI)
    then have "?alt probes" by (rule disjI2)
    with pr have "list_all isProbe probes \<and> ?alt probes" by (rule conjI)
    then show ?thesis by (intro exI)
  qed
  have notfound: "\<exists>probes. list_all isProbe probes \<and> ?alt probes"
    if pr: "list_all isProbe probes" and rp: "repository e = Repository None"
      and tr: "tr = ShowInformation Starting # probes @ [ShowError NoGitRepositoryFound]"
    for probes
  proof -
    from rp tr have "repository e = Repository None
                 \<and> tr = ShowInformation Starting # probes @ [ShowError NoGitRepositoryFound]"
      by (rule conjI)
    then have "?alt probes" by (rule disjI1)
    with pr have "list_all isProbe probes \<and> ?alt probes" by (rule conjI)
    then show ?thesis by (intro exI)
  qed
  show ?thesis
  proof (cases "repository e")
    case NoRepository
    with run have "tr = []" by (simp add: createMergeRequest_def)
    with NoRepository have "repository e = NoRepository \<and> tr = []" by (rule conjI)
    then show ?thesis by (rule disjI1)
  next
    case (Repository rootUri)
    have "\<exists>probes. list_all isProbe probes \<and> ?alt probes"
    proof (cases rootUri)
      case (Some fsPath)
      with Repository run
      have tr: "tr = ShowInformation Starting # [] @ fst (fromRoot e fsPath)"
        by (simp add: createMergeRequest_def after_def)
      have pr: "list_all isProbe []" by simp
      have how: "repository e = Repository (Some fsPath) \<and> [] = []
          \<or> repository e = Repository None \<and> [] \<noteq> []
             \<and> last [] = Access (joinPath e [fsPath, ''.git''])
             \<and> access e (joinPath e [fsPath, ''.git''])
             \<and> (\<forall>p. Access p \<in> set (butlast []) \<longrightarrow> \<not> access e p)"
        using Repository Some by simp
      from pr tr how show ?thesis by (rule located)
    next
      case None
      with Repository have rp: "repository e = Repository None" by simp
      with run obtain es root where
        loc: "(case activeFile e of None \<Rightarrow> Some ([], [])
               | Some file \<Rightarrow> walkUp e (dirname e file)) = Some (es, root)"
        and res: "(if root = []
                   then Some (ShowInformation Starting # es @ [ShowError NoGitRepositoryFound],
                              Inr ())
                   else Some (after (ShowInformation Starting # es) (fromRoot e root)))
                  = Some (tr, out)"
        by (auto simp: createMergeRequest_def Option.bind_eq_Some_conv)
      show ?thesis
      proof (cases "root = []")
        case True
        have pr: "list_all isProbe es"
          using loc walkUp_found(1) by (cases "activeFile e") auto
        from res True
        have "tr = ShowInformation Starting # es @ [ShowError NoGitRepositoryFound]"
          by simp
        with pr rp show ?thesis by (rule notfound)
      next
        case False
        with loc obtain af where w: "walkUp e (dirname e af) = Some (es, root)"
          by (cases "activeFile e") auto
        note F = walkUp_found [OF w]
        from res False have tr: "tr = ShowInformation Starting # es @ fst (fromRoot e root)"
          by (simp add: after_def)
        have how: "repository e = Repository (Some root) \<and> es = []
          \<or> repository e = Repository None \<and> es \<noteq> []
             \<and> last es = Access (joinPath e [root, ''.git''])
             \<and> access e (joinPath e [root, ''.git''])
             \<and> (\<forall>p. Access p \<in> set (butlast es) \<longrightarrow> \<not> access e p)"
        proof -
          have f5: "\<forall>p. Access p \<in> set (butlast es) \<longrightarrow> \<not> access e p"
            by (intro allI impI) (rule F(5) [OF False])
          from rp F(2) [OF False] F(3) [OF False] F(4) [OF False] f5
          have "repository e = Repository None \<and> es \<noteq> []
             \<and> last es = Access (joinPath e [root, ''.git''])
             \<and> access e (joinPath e [root, ''.git''])
             \<and> (\<forall>p. Access p \<in> set (butlast es) \<longrightarrow> \<not> access e p)"
            by (intro conjI)
          then show ?thesis by (rule disjI2)
        qed
        from F(1) tr how show ?thesis by (rule located)
      qed
    qed
    then show ?thesis by (rule disjI2)
  qed
qed

text \<open>The parts of a run that has located a root are determined by its events.\<close>

lemma run_split:
  assumes "tr = ShowInformation Starting # probes @ Git q root # rest"
    and "list_all isProbe probes"
  shows "takeWhile isProbe (tl tr) = probes"
    and "dropWhile isProbe (tl tr) = Git q root # rest"
proof -
  have stop: "Git q root # rest = [] \<or> \<not> isProbe (hd (Git q root # rest))" by simp
  from assms(1) have t: "tl tr = probes @ Git q root # rest" by simp
  show "takeWhile isProbe (tl tr) = probes"
    unfolding t by (rule takeWhile_stop(1) [OF assms(2) stop])
  show "dropWhile isProbe (tl tr) = Git q root # rest"
    unfolding t by (rule takeWhile_stop(2) [OF assms(2) stop])
qed

text \<open>The run of \<open>walkWorld\<close> returns: it probes \<^verbatim>\<open>/repo/src/.git\<close> without success and
  \<^verbatim>\<open>/repo/.git\<close> with success, queries the current branch, checks \<^verbatim>\<open>/repo/.git\<close> again and
  reads the configuration.\<close>

theorem validation_follows_branch_query_witness:
  "createMergeRequest walkWorld = Some (events walkWorld, Inr ())
   \<and> repository walkWorld = Repository None
   \<and> (\<exists>post.
         events walkWorld =
           ShowInformation Starting # [Access ''/repo/src/.git'', Access ''/repo/.git'']
             @ Git [''branch'', ''--show-current''] ''/repo''
             # Access (joinPath walkWorld [''/repo'', ''.git'']) # post
         \<and> ReadFile ''/repo/.git/config'' \<in> set post)
   \<and> \<not> access walkWorld ''/repo/src/.git''
   \<and> access walkWorld (joinPath walkWorld [''/repo'', ''.git''])
   \<and> (\<exists>b. snd (getCurrentBranch walkWorld ''/repo'') = Inr b \<and> startsWith b ''feat'')"
proof -
  let ?T = "[ShowInformation Starting, Access ''/repo/src/.git'',
    Access ''/repo/.git'', Git [''branch'', ''--show-current''] ''/repo'',
    Access ''/repo/.git'', ReadFile ''/repo/.git/config'',
    Git [''remote'', ''show'', ''origin''] ''/repo'',
    Git [''fetch'', ''origin''] ''/repo'',
    Git [''merge'', ''origin/main''] ''/repo'',
    Git [''push'', ''origin'', ''feat/x'', ''-o'', ''merge_request.create'',
         ''-o'', ''merge_request.target=main'', ''-o'',
         ''merge_request.remove_source_branch=false'', ''-o'',
         ''merge_request.title=feat/x''] ''/repo'',
    OpenExternal ''https://example.com/group/proj/-/merge_requests/42'',
    ShowInformation (CreatedAndOpened ''main''),
    Git [''checkout'', ''main''] ''/repo'',
    ShowInformation (Switched ''main'')]"
  have run: "createMergeRequest walkWorld = Some (?T, Inr ())" by code_simp
  then have ev: "events walkWorld = ?T" by (simp add: events_def)
  have rp: "repository walkWorld = Repository None" by (simp add: walkWorld_def)
  have na: "\<not> access walkWorld ''/repo/src/.git''"
    by (simp add: walkWorld_def featWorld_def world_def)
  have tw: "takeWhile isProbe (tl ?T) = [Access ''/repo/src/.git'', Access ''/repo/.git'']"
    by simp
  have dw: "dropWhile isProbe (tl ?T) =
    [Git [''branch'', ''--show-current''] ''/repo'',
    Access ''/repo/.git'', ReadFile ''/repo/.git/config'',
    Git [''remote'', ''show'', ''origin''] ''/repo'',
    Git [''fetch'', ''origin''] ''/repo'',
    Git [''merge'', ''origin/main''] ''/repo'',
    Git [''push'', ''origin'', ''feat/x'', ''-o'', ''merge_request.create'',
         ''-o'', ''merge_request.target=main'', ''-o'',
         ''merge_request.remove_source_branch=false'', ''-o'',
         ''merge_request.title=feat/x''] ''/repo'',
    OpenExternal ''https://example.com/group/proj/-/merge_requests/42'',
    ShowInformation (CreatedAndOpened ''main''),
    Git [''checkout'', ''main''] ''/repo'',
    ShowInformation (Switched ''main'')]"
    by simp
  from validation_follows_branch_query [OF run] rp
  obtain probes where pr: "list_all isProbe probes"
    and alt: "repository walkWorld = Repository None
                 \<and> ?T = ShowInformation Starting # probes @ [ShowError NoGitRepositoryFound]
               \<or> (\<exists>root rest.
                    ?T = ShowInformation Starting # probes
                           @ Git [''branch'', ''--show-current''] root # rest
                    \<and> (repository walkWorld = Repository (Some root) \<and> probes = []
                       \<or> repository walkWorld = Repository None \<and> probes \<noteq> []
                          \<and> last probes = Access (joinPath walkWorld [root, ''.git''])
                          \<and> access walkWorld (joinPath walkWorld [root, ''.git''])
                          \<and> (\<forall>p. Access p \<in> set (butlast probes)
                                 \<longrightarrow> \<not> access walkWorld p))
                    \<and> ((\<exists>p. Access p \<in> set rest) \<longrightarrow>
                          (\<exists>b post. rest = Access (joinPath walkWorld [root, ''.git'']) # post
                             \<and> snd (getCurrentBranch walkWorld root) = Inr b
                             \<and> startsWith b ''feat''))
                    \<and> ((\<exists>b. snd (getCurrentBranch walkWorld root) = Inr b
                              \<and> startsWith b ''feat'') \<longrightarrow>
                          (\<exists>post. rest = Access (joinPath walkWorld [root, ''.git'']) # post))
                    \<and> ((\<exists>q. ReadFile q \<in> set rest) \<longrightarrow>
                          access walkWorld (joinPath walkWorld [root, ''.git''])))"
    by (elim disjE exE conjE) simp_all
  from alt show ?thesis
  proof (elim disjE exE conjE)
    assume "?T = ShowInformation Starting # probes @ [ShowError NoGitRepositoryFound]"
    then have "last ?T = last (ShowInformation Starting # probes @ [ShowError NoGitRepositoryFound])"
      by (rule arg_cong)
    then show ?thesis by simp
  next
    fix root rest
    assume "repository walkWorld = Repository (Some root)"
    with rp show ?thesis by simp
  next
    fix root rest
    assume t: "?T = ShowInformation Starting # probes
                    @ Git [''branch'', ''--show-current''] root # rest"
      and acc: "access walkWorld (joinPath walkWorld [root, ''.git''])"
      and a: "(\<exists>p. Access p \<in> set rest) \<longrightarrow>
                (\<exists>b post. rest = Access (joinPath walkWorld [root, ''.git'']) # post
                   \<and> snd (getCurrentBranch walkWorld root) = Inr b \<and> startsWith b ''feat'')"
    have "probes = takeWhile isProbe (tl ?T)" by (rule run_split(1) [OF t pr, symmetric])
    also note tw
    finally have p: "probes = [Access ''/repo/src/.git'', Access ''/repo/.git'']" .
    have "Git [''branch'', ''--show-current''] root # rest = dropWhile isProbe (tl ?T)"
      by (rule run_split(2) [OF t pr, symmetric])
    also note dw
    finally have root: "root = ''/repo''"
      and rest: "rest = [Access ''/repo/.git'', ReadFile ''/repo/.git/config'',
        Git [''remote'', ''show'', ''origin''] ''/repo'',
        Git [''fetch'', ''origin''] ''/repo'',
        Git [''merge'', ''origin/main''] ''/repo'',
        Git [''push'', ''origin'', ''feat/x'', ''-o'', ''merge_request.create'',
             ''-o'', ''merge_request.target=main'', ''-o'',
             ''merge_request.remove_source_branch=false'', ''-o'',
             ''merge_request.title=feat/x''] ''/repo'',
        OpenExternal ''https://example.com/group/proj/-/merge_requests/42'',
        ShowInformation (CreatedAndOpened ''main''),
        Git [''checkout'', ''main''] ''/repo'',
        ShowInformation (Switched ''main'')]"
      by simp_all
    have "Access ''/repo/.git'' \<in> set rest" unfolding rest by simp
    then have "\<exists>p. Access p \<in> set rest" by (intro exI)
    with a obtain b post where
      r: "rest = Access (joinPath walkWorld [root, ''.git'']) # post"
      and b: "snd (getCurrentBranch walkWorld root) = Inr b" and f: "startsWith b ''feat''"
      by blast
    have "ReadFile ''/repo/.git/config'' \<in> set (tl rest)" unfolding rest by simp
    with r have rd: "ReadFile ''/repo/.git/config'' \<in> set post" by simp
    from t ev have "events walkWorld = ShowInformation Starting # probes
                    @ Git [''branch'', ''--show-current''] root # rest" by (simp only:)
    then have e1: "events walkWorld =
           ShowInformation Starting # [Access ''/repo/src/.git'', Access ''/repo/.git'']
             @ Git [''branch'', ''--show-current''] ''/repo''
             # Access (joinPath walkWorld [''/repo'', ''.git'']) # post"
      using r unfolding p root by (simp only:)
    from e1 rd have c3: "\<exists>post.
         events walkWorld =
           ShowInformation Starting # [Access ''/repo/src/.git'', Access ''/repo/.git'']
             @ Git [''branch'', ''--show-current''] ''/repo''
             # Access (joinPath walkWorld [''/repo'', ''.git'']) # post
         \<and> ReadFile ''/repo/.git/config'' \<in> set post"
      by (intro exI conjI)
    from b f have c6: "\<exists>b. snd (getCurrentBranch walkWorld ''/repo'') = Inr b
                         \<and> startsWith b ''feat''"
      unfolding root by (intro exI conjI)
    from run ev have c1: "createMergeRequest walkWorld = Some (events walkWorld, Inr ())"
      by (simp only:)
    from c1 rp c3 na acc [unfolded root] c6 show ?thesis by (intro conjI)
  qed
qed

section \<open>The fallback of target-branch resolution\<close>








end
